theory Spec2Isabelle
  imports Main "HOL-Library.Word"
begin

unbundle bit_operations_syntax

section \<open>Buffers\<close>

text \<open>
  A Node \<open>Buffer\<close> is a list of bytes. A JavaScript number written into a buffer
  is reduced modulo 256; the numbers the library writes (opcodes, key numbers, lengths)
  are non-negative integers, modelled as \<open>nat\<close>.
\<close>

type_synonym byte = "8 word"
type_synonym buffer = "byte list"

definition toByte :: "nat \<Rightarrow> byte" where
  "toByte n = of_nat n"

text \<open>\<open>Buffer.alloc(n, v)\<close>.\<close>

definition alloc :: "nat \<Rightarrow> byte \<Rightarrow> buffer" where
  "alloc n v = replicate n v"

text \<open>\<open>buf.slice(start, end)\<close> for non-negative bounds: both are clamped to the length.\<close>

definition slice :: "buffer \<Rightarrow> nat \<Rightarrow> nat \<Rightarrow> buffer" where
  "slice buf start end = take (end - start) (drop start buf)"

text \<open>\<open>buf.slice(-n)\<close>: the last \<open>n\<close> bytes, the whole buffer when it is shorter.\<close>

definition sliceLast :: "buffer \<Rightarrow> nat \<Rightarrow> buffer" where
  "sliceLast buf n = drop (length buf - n) buf"

text \<open>
  \<open>buf.writeUIntLE(value, 0, byteLength)\<close> on a fresh buffer of \<open>byteLength\<close> bytes:
  Node raises a RangeError when the value does not fit.
\<close>

datatype error =
    InvalidApduResponse
  | RangeError
  | InvalidKeyLength
  | InvalidIV
  | BlockLengthError
  | NullResult
  | CommandFailed byte byte
  | WriteDataFailed byte byte
  | WriteDataAFFailed nat byte byte
  | NoKeyProvided
  | KeySetNotFound
  | KeyNotFound
  | AesKeyLength
  | CmacKeyLength
  | UnexpectedLength nat
  | RndAVerificationFailed
  | NonFirstRequiresFirst
  | DesAuthFailed byte byte
  | DesAuthStep2Failed byte byte
  | EncRndBTooShort
  | EncRndAPrimeTooShort
  | DesRndAVerificationFailed
  | EV2AuthRequired
  | NewKeyLength

definition writeUIntLE :: "nat \<Rightarrow> nat \<Rightarrow> error + buffer" where
  "writeUIntLE v byteLength =
     (if v < 2 ^ (8 * byteLength)
      then Inr (map (\<lambda>i. toByte (v div 256 ^ i)) [0..<byteLength])
      else Inl RangeError)"

section \<open>APDU builder and parser\<close>

text \<open>
  \<open>APDU.build\<close>: the four ISO 7816-4 cases, chosen by which of \<open>data\<close> and
  \<open>le\<close> are supplied. A buffer is truthy even when empty, so \<open>!data\<close> holds only
  for an omitted argument.
\<close>

definition build :: "byte \<Rightarrow> byte \<Rightarrow> byte \<Rightarrow> byte \<Rightarrow> buffer option \<Rightarrow> nat option \<Rightarrow> buffer" where
  "build cla ins p1 p2 dat le =
     (let header = [cla, ins, p1, p2] in
      case dat of
        None \<Rightarrow> (case le of None \<Rightarrow> header | Some l \<Rightarrow> header @ [toByte l])
      | Some d \<Rightarrow>
          (case le of
             None \<Rightarrow> header @ [toByte (length d)] @ d
           | Some l \<Rightarrow> header @ [toByte (length d)] @ d @ [toByte l]))"

text \<open>\<open>APDU.buildDESFire(cmd, data, le = 0)\<close>: the Le byte is always present.\<close>

definition buildDESFire :: "byte \<Rightarrow> buffer option \<Rightarrow> nat \<Rightarrow> buffer" where
  "buildDESFire cmd dat le = build 0x90 cmd 0x00 0x00 dat (Some le)"

text \<open>
  The parsed response. The source also stores a human-readable status message computed
  from the status word; it only feeds error texts and is left out.
\<close>

record parsed =
  resp_sw1 :: byte
  resp_sw2 :: byte
  resp_data :: buffer

definition parse :: "buffer \<Rightarrow> error + parsed" where
  "parse response =
     (if length response < 2 then Inl InvalidApduResponse
      else Inr \<lparr> resp_sw1 = response ! (length response - 2),
                 resp_sw2 = response ! (length response - 1),
                 resp_data = slice response 0 (length response - 2) \<rparr>)"

definition isSuccess :: "byte \<Rightarrow> byte \<Rightarrow> bool" where
  "isSuccess sw1 sw2 \<longleftrightarrow> (sw1 = 0x90 \<and> sw2 = 0x00) \<or> (sw1 = 0x91 \<and> sw2 = 0x00)"

definition isAdditionalFrame :: "byte \<Rightarrow> byte \<Rightarrow> bool" where
  "isAdditionalFrame sw1 sw2 \<longleftrightarrow> sw1 = 0x91 \<and> sw2 = 0xAF"

text \<open>The length-error test that \<open>tryTransmitAttempts\<close> and \<open>writeData\<close> write inline.\<close>

definition isLengthError :: "byte \<Rightarrow> byte \<Rightarrow> bool" where
  "isLengthError sw1 sw2 \<longleftrightarrow> sw1 = 0x91 \<and> (sw2 = 0x7E \<or> sw2 = 0xA1)"

section \<open>The reader\<close>

text \<open>
  The PC/SC reader is the environment. It is a deterministic machine seen from outside:
  \<open>respond\<close> maps the exchanges made so far, the current one included, to the answer
  (\<open>None\<close> when the call raises), and \<open>wire\<close> records those exchanges in order.
  Quantifying over \<open>respond\<close> covers every behaviour of card and reader.
  \<open>Control\<close> is the CCID escape channel of ACR122U readers.
\<close>

datatype io = Transmit buffer | Control buffer

record reader =
  nameHasACR122U :: bool
  respond :: "io list \<Rightarrow> buffer option"
  wire :: "io list"

definition transmit :: "reader \<Rightarrow> buffer \<Rightarrow> buffer option \<times> reader" where
  "transmit rd apdu =
     (let w = wire rd @ [Transmit apdu] in (respond rd w, rd\<lparr>wire := w\<rparr>))"

definition control :: "reader \<Rightarrow> buffer \<Rightarrow> buffer option \<times> reader" where
  "control rd esc =
     (let w = wire rd @ [Control esc] in (respond rd w, rd\<lparr>wire := w\<rparr>))"

subsection \<open>ACR122U escape helpers\<close>

definition isACR122U :: "reader \<Rightarrow> bool" where
  "isACR122U rd = nameHasACR122U rd"

fun pn532Scan :: "buffer \<Rightarrow> buffer option" where
  "pn532Scan (a # b # c # rest) =
     (if a = 0xD5 \<and> (b = 0x41 \<or> b = 0x43) \<and> c = 0x00
      then (if length rest \<ge> 2 then Some rest else None)
      else pn532Scan (b # c # rest))"
| "pn532Scan _ = None"

definition parsePn532Response :: "buffer \<Rightarrow> buffer option" where
  "parsePn532Response resp = (if length resp < 4 then None else pn532Scan resp)"

text \<open>
  \<open>sendEsc\<close> wraps a payload as \<open>FF 00 00 00 Lc payload\<close> and sends it over whichever
  control entry point the reader object offers; which one is the reader's business, so
  the model has the one \<open>control\<close> channel. A raised error counts as no answer.
  A reader named ACR122U is taken to offer that channel; the feature request by which
  \<open>getEscapeControlCode\<close> looks up the escape code, and the pauses between retries,
  are left out. None of the results below goes through the escape path except the
  account of what is written to the wire.
\<close>

definition sendEsc :: "reader \<Rightarrow> buffer \<Rightarrow> buffer option \<times> reader" where
  "sendEsc rd p = control rd ([0xFF, 0x00, 0x00, 0x00, toByte (length p)] @ p)"

definition escAccepted :: "buffer option \<Rightarrow> buffer option" where
  "escAccepted resp =
     (case parsePn532Response (case resp of None \<Rightarrow> [] | Some b \<Rightarrow> b) of
        None \<Rightarrow> None
      | Some p \<Rightarrow> if length p \<ge> 2 then Some p else None)"

fun escPayloads :: "reader \<Rightarrow> buffer list \<Rightarrow> buffer \<times> reader" where
  "escPayloads rd [] = ([], rd)"
| "escPayloads rd (payload # rest) =
     (let (resp, rd1) = sendEsc rd payload in
      case escAccepted resp of
        Some p \<Rightarrow> (p, rd1)
      | None \<Rightarrow>
          (let (resp2, rd2) = sendEsc rd1 payload in
           case escAccepted resp2 of
             Some p2 \<Rightarrow> (p2, rd2)
           | None \<Rightarrow> escPayloads rd2 rest))"

definition transmitViaAcr122U :: "reader \<Rightarrow> buffer \<Rightarrow> buffer \<times> reader" where
  "transmitViaAcr122U rd apdu =
     escPayloads rd [apdu, [0xD4, 0x40, 0x01] @ apdu, [0xD4, 0x42] @ apdu]"

definition ensureIsoDep :: "reader \<Rightarrow> bool \<times> reader" where
  "ensureIsoDep rd =
     (let (u, rd1) = control rd ([0xFF, 0x00, 0x00, 0x00, 4] @ [0xD4, 0x4A, 0x01, 0x00]);
          (resp, rd2) = control rd1 ([0xFF, 0x00, 0x00, 0x00, 4] @ [0xD4, 0x42, 0xE0, 0x50])
      in ((case resp of
             None \<Rightarrow> False
           | Some b \<Rightarrow> (case parsePn532Response b of None \<Rightarrow> False | Some p \<Rightarrow> p \<noteq> [])),
          rd2))"

section \<open>The card object\<close>

text \<open>
  The fields of \<open>DESFireCard\<close>. The two session keys are buffer objects that
  \<open>resetAuth\<close> overwrites in place before it drops them, so they live in a store:
  \<open>heap\<close> maps an address to the bytes of the buffer there, \<open>heapTop\<close> is the next
  free address, and the key fields hold addresses.
\<close>

type_synonym keyManager = "nat \<rightharpoonup> (nat \<rightharpoonup> buffer)"

record DESFireCard =
  reader :: reader
  currentApp :: "nat option"
  keyManager :: "keyManager option"
  preferNoLe :: bool
  authenticated :: bool
  authenticatedKeyNo :: "nat option"
  sessionKeyEnc :: "nat option"
  sessionKeyMac :: "nat option"
  transactionId :: "buffer option"
  commandCounter :: nat
  heap :: "nat \<Rightarrow> buffer"
  heapTop :: nat

text \<open>The object a constructor call \<open>new DESFireCard(reader, keyManager)\<close> yields.\<close>

definition newCard :: "reader \<Rightarrow> keyManager option \<Rightarrow> DESFireCard" where
  "newCard rd km =
     \<lparr> reader = rd, currentApp = None, keyManager = km, preferNoLe = True,
       authenticated = False, authenticatedKeyNo = None,
       sessionKeyEnc = None, sessionKeyMac = None, transactionId = None,
       commandCounter = 0, heap = (\<lambda>a. []), heapTop = 0 \<rparr>"

text \<open>\<open>buf.fill(0)\<close> on the buffer at an address, when the field is not null.\<close>

definition fillZero :: "nat option \<Rightarrow> (nat \<Rightarrow> buffer) \<Rightarrow> (nat \<Rightarrow> buffer)" where
  "fillZero ref h =
     (case ref of None \<Rightarrow> h | Some a \<Rightarrow> h(a := alloc (length (h a)) 0x00))"

definition resetAuth :: "DESFireCard \<Rightarrow> DESFireCard" where
  "resetAuth st =
     st\<lparr> authenticated := False,
         authenticatedKeyNo := None,
         heap := fillZero (sessionKeyMac st) (fillZero (sessionKeyEnc st) (heap st)),
         sessionKeyEnc := None,
         sessionKeyMac := None,
         transactionId := None,
         commandCounter := 0 \<rparr>"

text \<open>Storing a freshly built buffer and returning its address.\<close>

definition newBuffer :: "buffer \<Rightarrow> DESFireCard \<Rightarrow> nat \<times> DESFireCard" where
  "newBuffer b st =
     (heapTop st, st\<lparr> heap := (heap st)(heapTop st := b), heapTop := Suc (heapTop st) \<rparr>)"

section \<open>Outcomes\<close>

text \<open>
  A method either returns a value or throws; both leave a card state behind.
  \<open>result\<close> is the outcome of a method that always finishes, \<open>outcome\<close> of one that
  may fetch continuation frames for ever (\<open>None\<close>: it never settles).
\<close>

type_synonym 'a result = "(error + 'a) \<times> DESFireCard"
type_synonym 'a outcome = "'a result option"

definition awaitThen :: "'a outcome \<Rightarrow> ('a \<Rightarrow> DESFireCard \<Rightarrow> 'b outcome) \<Rightarrow> 'b outcome" where
  "awaitThen m f =
     (case m of
        None \<Rightarrow> None
      | Some (Inl e, st) \<Rightarrow> Some (Inl e, st)
      | Some (Inr x, st) \<Rightarrow> f x st)"

section \<open>Transmit engine\<close>

definition usable :: "buffer option \<Rightarrow> bool" where
  "usable response = (case response of None \<Rightarrow> False | Some b \<Rightarrow> length b \<ge> 2)"

definition orEmpty :: "buffer option \<Rightarrow> buffer" where
  "orEmpty response = (case response of None \<Rightarrow> [] | Some b \<Rightarrow> b)"

text \<open>
  \<open>transmitParsed\<close>: (1) transmit, once more after a raised error; (2) on an ACR122U,
  the escape pass-through; (3) for a no-data APDU, the other Le form; otherwise
  \<open>APDU.parse\<close> of what is left, which is too short and raises.
\<close>

definition transmitParsed :: "buffer \<Rightarrow> DESFireCard \<Rightarrow> parsed result" where
  "transmitParsed apdu st =
     (let (first, rd1) = transmit (reader st) apdu;
          (response, rd2) = (case first of Some b \<Rightarrow> (Some b, rd1) | None \<Rightarrow> transmit rd1 apdu)
      in if usable response then (parse (orEmpty response), st\<lparr>reader := rd2\<rparr>)
         else
           (let (escResp, rd3) =
                  (if isACR122U rd2
                   then (let (ok, rda) = ensureIsoDep rd2;
                             (b, rdb) = transmitViaAcr122U rda apdu
                         in (Some b, rdb))
                   else (None, rd2))
            in if usable escResp then (parse (orEmpty escResp), st\<lparr>reader := rd3\<rparr>)
               else
                 (let toggled =
                        (if length apdu = 4 then Some (apdu @ [0x00])
                         else if length apdu = 5 \<and> apdu ! 4 = 0x00 then Some (slice apdu 0 4)
                         else None);
                      (rx, rd4) = (case toggled of None \<Rightarrow> (None, rd3) | Some t \<Rightarrow> transmit rd3 t)
                  in if usable rx then (parse (orEmpty rx), st\<lparr>reader := rd4\<rparr>)
                     else (parse (orEmpty response), st\<lparr>reader := rd4\<rparr>))))"

text \<open>
  \<open>tryTransmitAttempts\<close>: the loop over the attempts, \<open>lastResp\<close> being the loop's
  variable \<open>last\<close>. Returning \<open>last!\<close> from an empty attempt list would hand
  the caller null (\<open>NullResult\<close>); every caller passes two attempts.
\<close>

fun tryTransmitLoop :: "(buffer \<times> bool) list \<Rightarrow> parsed option \<Rightarrow> DESFireCard \<Rightarrow> parsed result" where
  "tryTransmitLoop [] lastResp st =
     (case lastResp of None \<Rightarrow> (Inl NullResult, st) | Some p \<Rightarrow> (Inr p, st))"
| "tryTransmitLoop ((apdu, usesLe) # rest) lastResp st =
     (case transmitParsed apdu st of
        (Inl e, st1) \<Rightarrow> (Inl e, st1)
      | (Inr p, st1) \<Rightarrow>
          if isSuccess (resp_sw1 p) (resp_sw2 p) \<or> isAdditionalFrame (resp_sw1 p) (resp_sw2 p)
          then (Inr p, st1\<lparr>preferNoLe := \<not> usesLe\<rparr>)
          else if \<not> isLengthError (resp_sw1 p) (resp_sw2 p) then (Inr p, st1)
          else tryTransmitLoop rest (Some p) st1)"

definition tryTransmitAttempts :: "(buffer \<times> bool) list \<Rightarrow> DESFireCard \<Rightarrow> parsed result" where
  "tryTransmitAttempts attempts st = tryTransmitLoop attempts None st"

text \<open>
  The attempt lists the callers build: the form without Le and the form with Le, in the
  order the preference gives.
\<close>

definition leAttempts :: "bool \<Rightarrow> buffer \<Rightarrow> buffer \<Rightarrow> (buffer \<times> bool) list" where
  "leAttempts prefNoLe noLe withLe =
     (if prefNoLe then [(noLe, False), (withLe, True)] else [(withLe, True), (noLe, False)])"

definition additionalFrameAttempts :: "bool \<Rightarrow> (buffer \<times> bool) list" where
  "additionalFrameAttempts prefNoLe =
     leAttempts prefNoLe [0x90, 0xAF, 0x00, 0x00] [0x90, 0xAF, 0x00, 0x00, 0x00]"

partial_function (option) getAdditionalFrame :: "DESFireCard \<Rightarrow> buffer outcome" where
  "getAdditionalFrame st =
     (case tryTransmitAttempts (additionalFrameAttempts (preferNoLe st)) st of
        (Inl e, st1) \<Rightarrow> Some (Inl e, st1)
      | (Inr p, st1) \<Rightarrow>
          if isAdditionalFrame (resp_sw1 p) (resp_sw2 p)
          then Option.bind (getAdditionalFrame st1)
                 (\<lambda>r. case r of
                         (Inl e, st2) \<Rightarrow> Some (Inl e, st2)
                       | (Inr additionalData, st2) \<Rightarrow> Some (Inr (resp_data p @ additionalData), st2))
          else Some (Inr (resp_data p), st1))"

text \<open>
  \<open>sendCommand(cmd, data, expectResponse)\<close>; the third parameter is never read.
  \<open>data && data.length\<close> holds for a supplied, non-empty buffer.
\<close>

definition commandAttempts :: "bool \<Rightarrow> byte \<Rightarrow> buffer option \<Rightarrow> (buffer \<times> bool) list" where
  "commandAttempts prefNoLe cmd dat =
     (if (case dat of None \<Rightarrow> False | Some d \<Rightarrow> d \<noteq> [])
      then leAttempts prefNoLe (build 0x90 cmd 0x00 0x00 dat None)
                               (build 0x90 cmd 0x00 0x00 dat (Some 0))
      else leAttempts prefNoLe [0x90, cmd, 0x00, 0x00] [0x90, cmd, 0x00, 0x00, 0x00])"

definition sendCommand :: "byte \<Rightarrow> buffer option \<Rightarrow> DESFireCard \<Rightarrow> buffer outcome" where
  "sendCommand cmd dat st =
     (case tryTransmitAttempts (commandAttempts (preferNoLe st) cmd dat) st of
        (Inl e, st1) \<Rightarrow> Some (Inl e, st1)
      | (Inr p, st1) \<Rightarrow>
          if \<not> isSuccess (resp_sw1 p) (resp_sw2 p) \<and> \<not> isAdditionalFrame (resp_sw1 p) (resp_sw2 p)
          then Some (Inl (CommandFailed (resp_sw1 p) (resp_sw2 p)), st1)
          else if isAdditionalFrame (resp_sw1 p) (resp_sw2 p)
          then awaitThen (getAdditionalFrame st1)
                 (\<lambda>additionalData st2. Some (Inr (resp_data p @ additionalData), st2))
          else Some (Inr (resp_data p), st1))"

section \<open>Crypto utilities\<close>

subsection \<open>CRC32\<close>

text \<open>
  JavaScript's bitwise operators work on 32-bit integers; \<open>>>>\<close> is the logical shift.
  \<open>crc32Bits\<close> is the inner loop of eight steps, \<open>crc32Loop\<close> the loop over the bytes.
\<close>

fun crc32Bits :: "nat \<Rightarrow> 32 word \<Rightarrow> 32 word" where
  "crc32Bits 0 crc = crc"
| "crc32Bits (Suc j) crc =
     crc32Bits j (if crc AND 1 \<noteq> 0 then drop_bit 1 crc XOR 0xEDB88320 else drop_bit 1 crc)"

fun crc32Loop :: "buffer \<Rightarrow> 32 word \<Rightarrow> 32 word" where
  "crc32Loop [] crc = crc"
| "crc32Loop (b # bs) crc = crc32Loop bs (crc32Bits 8 (crc XOR ucast b))"

definition crc32 :: "buffer \<Rightarrow> 32 word" where
  "crc32 dat = NOT (crc32Loop dat 0xFFFFFFFF)"

definition writeUInt32LE :: "32 word \<Rightarrow> buffer" where
  "writeUInt32LE v = [ucast v, ucast (drop_bit 8 v), ucast (drop_bit 16 v), ucast (drop_bit 24 v)]"

definition crc32Buffer :: "buffer \<Rightarrow> buffer" where
  "crc32Buffer dat = writeUInt32LE (crc32 dat)"

subsection \<open>Padding and rotation\<close>

definition padData :: "buffer \<Rightarrow> nat \<Rightarrow> buffer" where
  "padData dat blockSize =
     (let paddingLength = blockSize - (length dat mod blockSize);
          padding = (alloc paddingLength 0x00)[0 := 0x80]
      in dat @ padding)"

text \<open>
  \<open>unpadData\<close> scans from the last byte towards the first; \<open>unpadLoop dat n\<close> is the
  loop standing at index \<open>n - 1\<close>.
\<close>

fun unpadLoop :: "buffer \<Rightarrow> nat \<Rightarrow> buffer" where
  "unpadLoop dat 0 = dat"
| "unpadLoop dat (Suc i) =
     (if dat ! i = 0x80 then slice dat 0 i
      else if dat ! i \<noteq> 0x00 then dat
      else unpadLoop dat i)"

definition unpadData :: "buffer \<Rightarrow> buffer" where
  "unpadData dat = unpadLoop dat (length dat)"

definition rotateLeft :: "buffer \<Rightarrow> nat \<Rightarrow> buffer" where
  "rotateLeft buf bytes = map (\<lambda>i. buf ! ((i + bytes) mod length buf)) [0..<length buf]"

subsection \<open>The cipher library\<close>

text \<open>
  \<open>node:crypto\<close> is external: its block-aligned transforms are parameters (key, IV,
  data). What is modelled is when the calls raise: \<open>createCipheriv\<close> rejects a key or
  an IV of the wrong length, and with \<open>setAutoPadding(false)\<close> the call \<open>final()\<close>
  rejects input that is not a whole number of blocks (\<open>BlockLengthError\<close>).
\<close>

record nodeCrypto =
  aes128cbcEncrypt :: "buffer \<Rightarrow> buffer \<Rightarrow> buffer \<Rightarrow> buffer"
  aes128cbcDecrypt :: "buffer \<Rightarrow> buffer \<Rightarrow> buffer \<Rightarrow> buffer"
  aes128ecbEncrypt :: "buffer \<Rightarrow> buffer \<Rightarrow> buffer"
  desEdeCbcEncrypt :: "buffer \<Rightarrow> buffer \<Rightarrow> buffer \<Rightarrow> buffer"
  desEdeCbcDecrypt :: "buffer \<Rightarrow> buffer \<Rightarrow> buffer \<Rightarrow> buffer"
  desEde3CbcEncrypt :: "buffer \<Rightarrow> buffer \<Rightarrow> buffer \<Rightarrow> buffer"
  desEde3CbcDecrypt :: "buffer \<Rightarrow> buffer \<Rightarrow> buffer \<Rightarrow> buffer"

definition cipherCall ::
  "nat \<Rightarrow> nat \<Rightarrow> (buffer \<Rightarrow> buffer \<Rightarrow> buffer \<Rightarrow> buffer) \<Rightarrow> buffer \<Rightarrow> buffer \<Rightarrow> buffer \<Rightarrow> error + buffer" where
  "cipherCall keyLen blockLen f key iv dat =
     (if length key \<noteq> keyLen then Inl InvalidKeyLength
      else if length iv \<noteq> blockLen then Inl InvalidIV
      else if length dat mod blockLen \<noteq> 0 then Inl BlockLengthError
      else Inr (f key iv dat))"

definition aesEncrypt :: "nodeCrypto \<Rightarrow> buffer \<Rightarrow> buffer \<Rightarrow> buffer \<Rightarrow> error + buffer" where
  "aesEncrypt lib key dat iv = cipherCall 16 16 (aes128cbcEncrypt lib) key iv dat"

definition aesDecrypt :: "nodeCrypto \<Rightarrow> buffer \<Rightarrow> buffer \<Rightarrow> buffer \<Rightarrow> error + buffer" where
  "aesDecrypt lib key dat iv = cipherCall 16 16 (aes128cbcDecrypt lib) key iv dat"

definition des3Encrypt :: "nodeCrypto \<Rightarrow> buffer \<Rightarrow> buffer \<Rightarrow> buffer \<Rightarrow> error + buffer" where
  "des3Encrypt lib dat key iv =
     (if length key = 24 then cipherCall 24 8 (desEde3CbcEncrypt lib) key iv dat
      else cipherCall 16 8 (desEdeCbcEncrypt lib) key iv dat)"

definition des3Decrypt :: "nodeCrypto \<Rightarrow> buffer \<Rightarrow> buffer \<Rightarrow> buffer \<Rightarrow> error + buffer" where
  "des3Decrypt lib dat key iv =
     (if length key = 24 then cipherCall 24 8 (desEde3CbcDecrypt lib) key iv dat
      else cipherCall 16 8 (desEdeCbcDecrypt lib) key iv dat)"

subsection \<open>AES-CMAC and session keys\<close>

text \<open>
  \<open>shiftLeft1\<close> is the loop from index 15 down to 0 that shifts a block left by one
  bit; it returns the shifted block and the carry out of its first byte.
\<close>

fun shiftLeft1 :: "buffer \<Rightarrow> buffer \<times> byte" where
  "shiftLeft1 [] = ([], 0)"
| "shiftLeft1 (b # bs) =
     (let (rest, carry) = shiftLeft1 bs
      in ((push_bit 1 b OR carry) # rest, if b AND 0x80 \<noteq> 0 then 1 else 0))"

definition rb :: buffer where
  "rb = alloc 15 0x00 @ [0x87]"

text \<open>\<open>a[i] ^= b[i]\<close> over the indices of \<open>a\<close>; a missing \<open>b[i]\<close> counts as 0.\<close>

definition xorInto :: "buffer \<Rightarrow> buffer \<Rightarrow> buffer" where
  "xorInto a b = map (\<lambda>i. a ! i XOR (if i < length b then b ! i else 0)) [0..<length a]"

definition nextSubkey :: "buffer \<Rightarrow> buffer" where
  "nextSubkey l =
     (let k = fst (shiftLeft1 l)
      in if l \<noteq> [] \<and> l ! 0 AND 0x80 \<noteq> 0 then xorInto k rb else k)"

definition generateCMACSubkeys :: "nodeCrypto \<Rightarrow> buffer \<Rightarrow> buffer \<times> buffer" where
  "generateCMACSubkeys lib key =
     (let l = aes128ecbEncrypt lib key (alloc 16 0x00);
          k1 = nextSubkey l;
          k2 = nextSubkey k1
      in (k1, k2))"

text \<open>XOR of a subkey into the last 16 bytes; a buffer with no such bytes is left as it is.\<close>

definition xorLastBlock :: "buffer \<Rightarrow> buffer \<Rightarrow> buffer" where
  "xorLastBlock p k =
     (if length p < 16 then p
      else slice p 0 (length p - 16) @ xorInto (sliceLast p 16) k)"

definition aesCMAC :: "nodeCrypto \<Rightarrow> buffer \<Rightarrow> buffer \<Rightarrow> nat \<Rightarrow> error + buffer" where
  "aesCMAC lib key dat len =
     (if length key \<noteq> 16 then Inl CmacKeyLength
      else
        (let (k1, k2) = generateCMACSubkeys lib key;
             outputLength = (if len = 0 then 16 else len);
             numBlocks = (length dat + 15) div 16;
             paddedData =
               (if dat = [] \<or> length dat mod 16 \<noteq> 0
                then xorLastBlock ((dat @ alloc (numBlocks * 16 - length dat) 0x00)[length dat := 0x80]) k2
                else xorLastBlock dat k1);
             mac = fold (\<lambda>i m. aes128ecbEncrypt lib key (xorInto m (slice paddedData (16 * i) (16 * i + 16))))
                     [0..<length paddedData div 16] (alloc 16 0x00)
         in Inr (slice mac 0 outputLength)))"

definition sessionVector :: "buffer \<Rightarrow> buffer \<Rightarrow> buffer \<Rightarrow> buffer" where
  "sessionVector label rndA rndB =
     label @ slice rndA 0 2 @ slice rndB 0 2 @ slice rndA 13 16 @ slice rndB 13 16"

definition deriveSessionKeyEV2Enc :: "nodeCrypto \<Rightarrow> buffer \<Rightarrow> buffer \<Rightarrow> buffer \<Rightarrow> error + buffer" where
  "deriveSessionKeyEV2Enc lib key rndA rndB =
     aesCMAC lib key (sessionVector [0xA5, 0x5A, 0x00, 0x01, 0x00, 0x80] rndA rndB) 16"

definition deriveSessionKeyEV2Mac :: "nodeCrypto \<Rightarrow> buffer \<Rightarrow> buffer \<Rightarrow> buffer \<Rightarrow> error + buffer" where
  "deriveSessionKeyEV2Mac lib key rndA rndB =
     aesCMAC lib key (sessionVector [0x5A, 0xA5, 0x00, 0x01, 0x00, 0x80] rndA rndB) 16"

definition deriveSessionKeyAESEnc :: "buffer \<Rightarrow> buffer \<Rightarrow> buffer \<Rightarrow> buffer" where
  "deriveSessionKeyAESEnc key rndA rndB =
     slice rndA 0 4 @ slice rndB 0 4 @ slice rndA 12 16 @ slice rndB 12 16"

definition deriveSessionKeyAESMac :: "buffer \<Rightarrow> buffer \<Rightarrow> buffer \<Rightarrow> buffer" where
  "deriveSessionKeyAESMac key rndA rndB =
     slice rndA 4 8 @ slice rndB 4 8 @ slice rndA 8 12 @ slice rndB 8 12"

section \<open>Application and file operations\<close>

definition selectApplication :: "nat \<Rightarrow> DESFireCard \<Rightarrow> unit outcome" where
  "selectApplication aid st =
     (case writeUIntLE aid 3 of
        Inl e \<Rightarrow> Some (Inl e, st)
      | Inr aidBuffer \<Rightarrow>
          awaitThen (sendCommand 0x5A (Some aidBuffer) st)
            (\<lambda>response st1. Some (Inr (), st1\<lparr>currentApp := Some aid\<rparr>)))"

text \<open>
  \<open>writeData\<close>: the lead frame carries the header and the first chunk; \<open>writeLoop\<close>
  is the \<open>while (sent < data.length)\<close> loop that sends the rest under ADDITIONAL_FRAME,
  with Le first and once more without Le after a length error.
\<close>

definition MAX_CHUNK :: nat where
  "MAX_CHUNK = 40"

function writeLoop :: "buffer \<Rightarrow> nat \<Rightarrow> DESFireCard \<Rightarrow> unit result" where
  "writeLoop dat sent st =
     (if sent < length dat
      then
        (let remaining = length dat - sent;
             chunk = slice dat sent (sent + min remaining MAX_CHUNK)
         in case transmitParsed (build 0x90 0xAF 0x00 0x00 (Some chunk) (Some 0)) st of
              (Inl e, st1) \<Rightarrow> (Inl e, st1)
            | (Inr p1, st1) \<Rightarrow>
                (case (if isLengthError (resp_sw1 p1) (resp_sw2 p1)
                       then transmitParsed (build 0x90 0xAF 0x00 0x00 (Some chunk) None) st1
                       else (Inr p1, st1)) of
                   (Inl e, st2) \<Rightarrow> (Inl e, st2)
                 | (Inr p, st2) \<Rightarrow>
                     if \<not> (isSuccess (resp_sw1 p) (resp_sw2 p) \<or> isAdditionalFrame (resp_sw1 p) (resp_sw2 p))
                     then (Inl (WriteDataAFFailed sent (resp_sw1 p) (resp_sw2 p)), st2)
                     else writeLoop dat (sent + length chunk) st2))
      else (Inr (), st))"
  by pat_completeness auto
termination
  by (relation "measure (\<lambda>(dat, sent, st). length dat - sent)")
     (auto simp: slice_def MAX_CHUNK_def)

definition writeData :: "nat \<Rightarrow> nat \<Rightarrow> buffer \<Rightarrow> DESFireCard \<Rightarrow> unit result" where
  "writeData fileNo offset dat st =
     (case writeUIntLE offset 3 of
        Inl e \<Rightarrow> (Inl e, st)
      | Inr offsetBuffer \<Rightarrow>
          (case writeUIntLE (length dat) 3 of
             Inl e \<Rightarrow> (Inl e, st)
           | Inr lengthBuffer \<Rightarrow>
               (let firstChunk = slice dat 0 (min (length dat) MAX_CHUNK);
                    firstPayload = [toByte fileNo] @ offsetBuffer @ lengthBuffer @ firstChunk
                in case transmitParsed (buildDESFire 0x3D (Some firstPayload) 0) st of
                     (Inl e, st1) \<Rightarrow> (Inl e, st1)
                   | (Inr p, st1) \<Rightarrow>
                       if \<not> (isSuccess (resp_sw1 p) (resp_sw2 p) \<or> isAdditionalFrame (resp_sw1 p) (resp_sw2 p))
                       then (Inl (WriteDataFailed (resp_sw1 p) (resp_sw2 p)), st1)
                       else writeLoop dat (length firstChunk) st1)))"

section \<open>Authentication\<close>

text \<open>
  In every handshake \<open>rndA\<close> stands for the bytes \<open>generateRandom\<close> draws in that
  run. The three AES methods resolve their key in the same way: the argument if given,
  otherwise the key manager's key for the current application.
\<close>

definition getKey :: "keyManager \<Rightarrow> nat \<Rightarrow> nat \<Rightarrow> error + buffer" where
  "getKey km appId keyNo =
     (case km appId of
        None \<Rightarrow> Inl KeySetNotFound
      | Some keys \<Rightarrow> (case keys keyNo of None \<Rightarrow> Inl KeyNotFound | Some k \<Rightarrow> Inr k))"

definition resolveKey :: "buffer option \<Rightarrow> nat \<Rightarrow> DESFireCard \<Rightarrow> error + buffer" where
  "resolveKey key keyNo st =
     (case key of
        Some k \<Rightarrow> Inr k
      | None \<Rightarrow>
          (case keyManager st of
             None \<Rightarrow> Inl NoKeyProvided
           | Some km \<Rightarrow>
               (case currentApp st of
                  None \<Rightarrow> Inl NoKeyProvided
                | Some app \<Rightarrow> getKey km app keyNo)))"

definition zeroIV :: buffer where
  "zeroIV = alloc 16 0x00"

definition authenticateAES ::
  "nodeCrypto \<Rightarrow> buffer \<Rightarrow> nat \<Rightarrow> buffer option \<Rightarrow> DESFireCard \<Rightarrow> unit outcome" where
  "authenticateAES lib rndA keyNo key st =
     (case resolveKey key keyNo st of
        Inl e \<Rightarrow> Some (Inl e, st)
      | Inr authKey \<Rightarrow>
          if length authKey \<noteq> 16 then Some (Inl AesKeyLength, st)
          else
            awaitThen (sendCommand 0xAA (Some [toByte keyNo]) (resetAuth st))
              (\<lambda>response1 st1.
                 if length response1 \<noteq> 16 then Some (Inl (UnexpectedLength (length response1)), st1)
                 else
                   (case aesDecrypt lib authKey response1 zeroIV of
                      Inl e \<Rightarrow> Some (Inl e, st1)
                    | Inr rndB \<Rightarrow>
                        (case aesEncrypt lib authKey (rndA @ rotateLeft rndB 1) zeroIV of
                           Inl e \<Rightarrow> Some (Inl e, st1)
                         | Inr encChallenge \<Rightarrow>
                             awaitThen (sendCommand 0xAF (Some encChallenge) st1)
                               (\<lambda>response2 st2.
                                  if length response2 \<noteq> 16
                                  then Some (Inl (UnexpectedLength (length response2)), st2)
                                  else
                                    (case aesDecrypt lib authKey response2 zeroIV of
                                       Inl e \<Rightarrow> Some (Inl e, st2)
                                     | Inr decryptedRndAPrime \<Rightarrow>
                                         if decryptedRndAPrime \<noteq> rotateLeft rndA 1
                                         then Some (Inl RndAVerificationFailed, st2)
                                         else
                                           (let (enc, st3) = newBuffer (deriveSessionKeyAESEnc authKey rndA rndB) st2;
                                                (mac, st4) = newBuffer (deriveSessionKeyAESMac authKey rndA rndB)
                                                               (st3\<lparr>sessionKeyEnc := Some enc\<rparr>)
                                            in Some (Inr (),
                                                 st4\<lparr> sessionKeyMac := Some mac,
                                                      authenticated := True,
                                                      authenticatedKeyNo := Some keyNo,
                                                      commandCounter := 0 \<rparr>))))))))"

text \<open>
  The tail shared by the two EV2 handshakes once RndA' has been verified: derive the
  CMAC session keys, assign them, mark the session authenticated.
\<close>

definition ev2Establish ::
  "nodeCrypto \<Rightarrow> buffer \<Rightarrow> buffer \<Rightarrow> buffer \<Rightarrow> nat \<Rightarrow> bool \<Rightarrow> DESFireCard \<Rightarrow> unit outcome" where
  "ev2Establish lib authKey rndA rndB keyNo resetCounter st =
     (case deriveSessionKeyEV2Enc lib authKey rndA rndB of
        Inl e \<Rightarrow> Some (Inl e, st)
      | Inr encKey \<Rightarrow>
          (let (enc, st1) = newBuffer encKey st;
               st2 = st1\<lparr>sessionKeyEnc := Some enc\<rparr>
           in case deriveSessionKeyEV2Mac lib authKey rndA rndB of
                Inl e \<Rightarrow> Some (Inl e, st2)
              | Inr macKey \<Rightarrow>
                  (let (mac, st3) = newBuffer macKey st2;
                       st4 = st3\<lparr> sessionKeyMac := Some mac,
                                   authenticated := True,
                                   authenticatedKeyNo := Some keyNo \<rparr>
                   in Some (Inr (), if resetCounter then st4\<lparr>commandCounter := 0\<rparr> else st4))))"

definition authenticateEV2First ::
  "nodeCrypto \<Rightarrow> buffer \<Rightarrow> nat \<Rightarrow> buffer option \<Rightarrow> DESFireCard \<Rightarrow> unit outcome" where
  "authenticateEV2First lib rndA keyNo key st =
     (case resolveKey key keyNo st of
        Inl e \<Rightarrow> Some (Inl e, st)
      | Inr authKey \<Rightarrow>
          if length authKey \<noteq> 16 then Some (Inl AesKeyLength, st)
          else
            awaitThen (sendCommand 0x71 (Some [toByte keyNo, 0x00, 0x00]) (resetAuth st))
              (\<lambda>response1 st1.
                 if length response1 < 16 then Some (Inl (UnexpectedLength (length response1)), st1)
                 else
                   (case aesDecrypt lib authKey (slice response1 0 16) zeroIV of
                      Inl e \<Rightarrow> Some (Inl e, st1)
                    | Inr rndB \<Rightarrow>
                        (case aesEncrypt lib authKey (rndA @ rotateLeft rndB 1) zeroIV of
                           Inl e \<Rightarrow> Some (Inl e, st1)
                         | Inr encChallenge \<Rightarrow>
                             awaitThen (sendCommand 0xAF (Some encChallenge) st1)
                               (\<lambda>response2 st2.
                                  if length response2 < 4
                                  then Some (Inl (UnexpectedLength (length response2)), st2)
                                  else
                                    (let st3 = st2\<lparr>transactionId := Some (slice response2 0 4)\<rparr>
                                     in case aesDecrypt lib authKey (slice response2 4 20) zeroIV of
                                          Inl e \<Rightarrow> Some (Inl e, st3)
                                        | Inr decryptedRndAPrime \<Rightarrow>
                                            if decryptedRndAPrime \<noteq> rotateLeft rndA 1
                                            then Some (Inl RndAVerificationFailed, st3)
                                            else ev2Establish lib authKey rndA rndB keyNo True st3))))))"

definition authenticateEV2NonFirst ::
  "nodeCrypto \<Rightarrow> buffer \<Rightarrow> nat \<Rightarrow> buffer option \<Rightarrow> DESFireCard \<Rightarrow> unit outcome" where
  "authenticateEV2NonFirst lib rndA keyNo key st =
     (if transactionId st = None then Some (Inl NonFirstRequiresFirst, st)
      else
        (case resolveKey key keyNo st of
           Inl e \<Rightarrow> Some (Inl e, st)
         | Inr authKey \<Rightarrow>
             if length authKey \<noteq> 16 then Some (Inl AesKeyLength, st)
             else
               awaitThen (sendCommand 0x77 (Some [toByte keyNo, 0x00, 0x00]) st)
                 (\<lambda>response1 st1.
                    case aesDecrypt lib authKey (slice response1 0 16) zeroIV of
                      Inl e \<Rightarrow> Some (Inl e, st1)
                    | Inr rndB \<Rightarrow>
                        (case aesEncrypt lib authKey (rndA @ rotateLeft rndB 1) zeroIV of
                           Inl e \<Rightarrow> Some (Inl e, st1)
                         | Inr encChallenge \<Rightarrow>
                             awaitThen (sendCommand 0xAF (Some encChallenge) st1)
                               (\<lambda>response2 st2.
                                  case aesDecrypt lib authKey (slice response2 0 16) zeroIV of
                                    Inl e \<Rightarrow> Some (Inl e, st2)
                                  | Inr decryptedRndAPrime \<Rightarrow>
                                      if decryptedRndAPrime \<noteq> rotateLeft rndA 1
                                      then Some (Inl RndAVerificationFailed, st2)
                                      else ev2Establish lib authKey rndA rndB keyNo False st2)))))"

text \<open>
  Legacy DES/3DES authentication. It drives \<open>tryTransmitAttempts\<close> itself and never
  fetches continuation frames, so it always finishes.
\<close>

definition desAttempts :: "bool \<Rightarrow> byte \<Rightarrow> buffer \<Rightarrow> (buffer \<times> bool) list" where
  "desAttempts prefNoLe ins dat =
     leAttempts prefNoLe (build 0x90 ins 0x00 0x00 (Some dat) None)
                         (build 0x90 ins 0x00 0x00 (Some dat) (Some 0))"

definition authenticateDES ::
  "nodeCrypto \<Rightarrow> buffer \<Rightarrow> nat \<Rightarrow> buffer option \<Rightarrow> DESFireCard \<Rightarrow> unit result" where
  "authenticateDES lib rndA keyNo key st =
     (let authKey = (case key of
                       None \<Rightarrow> alloc 16 0x00
                     | Some k \<Rightarrow> if length k = 16 \<or> length k = 24 then k else alloc 16 0x00)
      in case tryTransmitAttempts (desAttempts (preferNoLe st) 0x0A [toByte keyNo]) st of
           (Inl e, st1) \<Rightarrow> (Inl e, st1)
         | (Inr resp1, st1) \<Rightarrow>
             if \<not> isAdditionalFrame (resp_sw1 resp1) (resp_sw2 resp1)
                \<and> \<not> isSuccess (resp_sw1 resp1) (resp_sw2 resp1)
             then (Inl (DesAuthFailed (resp_sw1 resp1) (resp_sw2 resp1)), st1)
             else
               (let encRndB = resp_data resp1
                in if length encRndB < 8 then (Inl EncRndBTooShort, st1)
                   else
                     (case des3Decrypt lib (slice encRndB 0 8) authKey (alloc 8 0x00) of
                        Inl e \<Rightarrow> (Inl e, st1)
                      | Inr rndB \<Rightarrow>
                          (case des3Encrypt lib (rndA @ rotateLeft rndB 1) authKey (sliceLast encRndB 8) of
                             Inl e \<Rightarrow> (Inl e, st1)
                           | Inr encChallenge \<Rightarrow>
                               (case tryTransmitAttempts (desAttempts (preferNoLe st1) 0xAF encChallenge) st1 of
                                  (Inl e, st2) \<Rightarrow> (Inl e, st2)
                                | (Inr resp2, st2) \<Rightarrow>
                                    if \<not> isSuccess (resp_sw1 resp2) (resp_sw2 resp2)
                                       \<and> \<not> isAdditionalFrame (resp_sw1 resp2) (resp_sw2 resp2)
                                    then (Inl (DesAuthStep2Failed (resp_sw1 resp2) (resp_sw2 resp2)), st2)
                                    else
                                      (let encRndAPrime = resp_data resp2
                                       in if length encRndAPrime < 8 then (Inl EncRndAPrimeTooShort, st2)
                                          else
                                            (case des3Decrypt lib (slice encRndAPrime 0 8) authKey
                                                    (sliceLast encChallenge 8) of
                                               Inl e \<Rightarrow> (Inl e, st2)
                                             | Inr rndAPrime \<Rightarrow>
                                                 if rndAPrime \<noteq> rotateLeft rndA 1
                                                 then (Inl DesRndAVerificationFailed, st2)
                                                 else (Inr (),
                                                       st2\<lparr> authenticated := True,
                                                            authenticatedKeyNo := Some keyNo \<rparr>))))))))"

section \<open>Secure key change\<close>

definition changeKeyEV2 ::
  "nodeCrypto \<Rightarrow> nat \<Rightarrow> buffer \<Rightarrow> nat \<Rightarrow> DESFireCard \<Rightarrow> unit outcome" where
  "changeKeyEV2 lib keyNo newKey newKeyVersion st =
     (case sessionKeyEnc st of
        None \<Rightarrow> Some (Inl EV2AuthRequired, st)
      | Some enc \<Rightarrow>
          if \<not> authenticated st then Some (Inl EV2AuthRequired, st)
          else if length newKey \<noteq> 16 then Some (Inl NewKeyLength, st)
          else
            (let keyData = newKey @ [toByte newKeyVersion];
                 crcData = [0xC6, toByte keyNo] @ keyData;
                 crc = crc32Buffer crcData;
                 plainData = keyData @ crc
             in case aesEncrypt lib (heap st enc) plainData zeroIV of
                  Inl e \<Rightarrow> Some (Inl e, st)
                | Inr encryptedData \<Rightarrow>
                    awaitThen (sendCommand 0xC6 (Some ([toByte keyNo] @ encryptedData)) st)
                      (\<lambda>response st1. Some (Inr (), st1))))"

section \<open>Vocabulary of the statements\<close>

text \<open>
  \<open>sameSession st st'\<close>: the two card states differ at most in the reader and in the Le
  preference, the only fields the transmit engine writes.
\<close>

definition sameSession :: "DESFireCard \<Rightarrow> DESFireCard \<Rightarrow> bool" where
  "sameSession st st' \<longleftrightarrow> st' = st\<lparr>reader := reader st', preferNoLe := preferNoLe st'\<rparr>"

text \<open>
  \<open>afterFrames st frames\<close> is the card once the frames have gone over the wire, and
  \<open>answer st frames\<close> is what the reader returns for the last of them.
\<close>

definition afterFrames :: "DESFireCard \<Rightarrow> buffer list \<Rightarrow> DESFireCard" where
  "afterFrames st frames =
     st\<lparr>reader := (reader st)\<lparr>wire := wire (reader st) @ map Transmit frames\<rparr>\<rparr>"

definition answer :: "DESFireCard \<Rightarrow> buffer list \<Rightarrow> buffer option" where
  "answer st frames = respond (reader st) (wire (reader st) @ map Transmit frames)"

text \<open>The APDU of the first attempt: the command in the preferred Le form.\<close>

definition commandFrame :: "bool \<Rightarrow> byte \<Rightarrow> buffer option \<Rightarrow> buffer" where
  "commandFrame prefNoLe cmd dat = fst (hd (commandAttempts prefNoLe cmd dat))"

definition afFrame :: "bool \<Rightarrow> buffer" where
  "afFrame prefNoLe = fst (hd (additionalFrameAttempts prefNoLe))"

text \<open>
  The frames the spec prescribes for a chunked write, to compare \<open>writeData\<close> with:
  the data cut into pieces of at most 40 bytes (\<open>chunked\<close>); a lead frame under opcode
  \<open>3D\<close> with Lc, the header (file number, 3-byte little-endian offset and length),
  the first piece and Le; then one ADDITIONAL_FRAME frame with Lc, piece and Le for each
  further piece.
\<close>

function chunked :: "nat \<Rightarrow> buffer \<Rightarrow> buffer list" where
  "chunked n xs = (if n = 0 \<or> xs = [] then [] else take n xs # chunked n (drop n xs))"
  by pat_completeness auto
termination
  by (relation "measure (\<lambda>(n, xs). length xs)") auto

definition le3 :: "nat \<Rightarrow> buffer" where
  "le3 v = [toByte v, toByte (v div 256), toByte (v div 65536)]"

definition afDataFrame :: "buffer \<Rightarrow> buffer" where
  "afDataFrame c = [0x90, 0xAF, 0x00, 0x00, toByte (length c)] @ c @ [0x00]"

definition specWriteFrames :: "nat \<Rightarrow> nat \<Rightarrow> buffer \<Rightarrow> buffer list" where
  "specWriteFrames fileNo offset dat =
     ([0x90, 0x3D, 0x00, 0x00, toByte (7 + length (take 40 dat))]
        @ ([toByte fileNo] @ le3 offset @ le3 (length dat) @ take 40 dat) @ [0x00])
     # map afDataFrame (chunked 40 (drop 40 dat))"

text \<open>An answer the write path accepts: a status word of success or continuation.\<close>

definition accepted :: "buffer option \<Rightarrow> bool" where
  "accepted r =
     (case r of
        None \<Rightarrow> False
      | Some resp \<Rightarrow>
          2 \<le> length resp
          \<and> (isSuccess (resp ! (length resp - 2)) (resp ! (length resp - 1))
             \<or> isAdditionalFrame (resp ! (length resp - 2)) (resp ! (length resp - 1))))"

declare chunked.simps [simp del]
declare writeLoop.simps [simp del]

subsection \<open>Test vectors and scripted readers\<close>

text \<open>The bytes of an ASCII string, as \<open>Buffer.from(s)\<close> gives them.\<close>

definition ascii :: "string \<Rightarrow> buffer" where
  "ascii s = map (\<lambda>c. of_nat (of_char c)) s"

text \<open>
  A reader that plays a fixed list of answers, one per exchange, and raises on every
  exchange after the last.
\<close>

definition scripted :: "buffer option list \<Rightarrow> reader" where
  "scripted answers =
     \<lparr> nameHasACR122U = False,
       respond = (\<lambda>w. if 0 < length w \<and> length w \<le> length answers
                       then answers ! (length w - 1) else None),
       wire = [] \<rparr>"

subsection \<open>Fixtures\<close>

text \<open>
  A stand-in for the cipher library in concrete runs: every transform returns its input,
  so that a handshake transcript can be written down by hand.
\<close>

definition identityCrypto :: nodeCrypto where
  "identityCrypto =
     \<lparr> aes128cbcEncrypt = (\<lambda>key iv dat. dat),
       aes128cbcDecrypt = (\<lambda>key iv dat. dat),
       aes128ecbEncrypt = (\<lambda>key block. block),
       desEdeCbcEncrypt = (\<lambda>key iv dat. dat),
       desEdeCbcDecrypt = (\<lambda>key iv dat. dat),
       desEde3CbcEncrypt = (\<lambda>key iv dat. dat),
       desEde3CbcDecrypt = (\<lambda>key iv dat. dat) \<rparr>"

text \<open>
  The sequence Select(1); Auth with the factory key; Select(2) on a scripted reader:
  the random challenge of the run, the card before the first step, and the card after
  each step. With the stand-in cipher the card's encrypted RndB is \<open>B1 \<dots> B8\<close> and
  its final answer is RndA rotated left by one byte.
\<close>

definition scenarioRndA :: buffer where
  "scenarioRndA = [0xA1, 0xA2, 0xA3, 0xA4, 0xA5, 0xA6, 0xA7, 0xA8]"

definition scenarioCard :: DESFireCard where
  "scenarioCard =
     newCard (scripted [Some [0x91, 0x00],
                        Some [0xB1, 0xB2, 0xB3, 0xB4, 0xB5, 0xB6, 0xB7, 0xB8, 0x91, 0xAF],
                        Some [0xA2, 0xA3, 0xA4, 0xA5, 0xA6, 0xA7, 0xA8, 0xA1, 0x91, 0x00],
                        Some [0x91, 0x00]]) None"

definition scenarioSelected :: DESFireCard where
  "scenarioSelected =
     (afterFrames scenarioCard [[0x90, 0x5A, 0x00, 0x00, 0x03, 0x01, 0x00, 0x00]])
       \<lparr>currentApp := Some 1\<rparr>"

definition scenarioAuthenticated :: DESFireCard where
  "scenarioAuthenticated =
     (afterFrames scenarioSelected
        [[0x90, 0x0A, 0x00, 0x00, 0x01, 0x00],
         [0x90, 0xAF, 0x00, 0x00, 0x10,
          0xA1, 0xA2, 0xA3, 0xA4, 0xA5, 0xA6, 0xA7, 0xA8,
          0xB2, 0xB3, 0xB4, 0xB5, 0xB6, 0xB7, 0xB8, 0xB1]])
       \<lparr>authenticated := True, authenticatedKeyNo := Some 0\<rparr>"

definition scenarioReselected :: DESFireCard where
  "scenarioReselected =
     (afterFrames scenarioAuthenticated [[0x90, 0x5A, 0x00, 0x00, 0x03, 0x02, 0x00, 0x00]])
       \<lparr>currentApp := Some 2\<rparr>"

text \<open>
  An authenticated session that holds two 16-byte session keys, on a reader whose next
  answer is \<open>91 AE\<close>.
\<close>

definition keyedSession :: DESFireCard where
  "keyedSession =
     (newCard (scripted [Some [0x91, 0xAE]]) None)
       \<lparr> authenticated := True, authenticatedKeyNo := Some 0, sessionKeyEnc := Some 0,
         sessionKeyMac := Some 1, heap := (\<lambda>a. alloc 16 0x33), heapTop := 2 \<rparr>"

section \<open>CRC32 check values\<close>

lemma crc32Bits_8:
  "crc32Bits 8 c =
     crc32Bits 0 (crc32Bits (Suc 0) (crc32Bits (Suc 0) (crc32Bits (Suc 0) (crc32Bits (Suc 0)
       (crc32Bits (Suc 0) (crc32Bits (Suc 0) (crc32Bits (Suc 0) (crc32Bits (Suc 0) c))))))))"
  by (simp add: eval_nat_numeral)

lemma crc32_check_value: "crc32 (ascii ''123456789'') = 0xCBF43926"
  by (simp add: ascii_def crc32_def crc32Bits_8)

text \<open>
  C7, as the code has it: \<open>crc32Buffer\<close> maps the empty buffer to \<open>00 00 00 00\<close> and
  the ASCII string "123456789", whose CRC32 is \<open>0xCBF43926\<close>, to that value's
  little-endian bytes \<open>26 39 F4 CB\<close>.
\<close>

theorem crc32Buffer_vectors:
  "crc32Buffer [] = [0x00, 0x00, 0x00, 0x00]
   \<and> crc32Buffer (ascii ''123456789'') = [0x26, 0x39, 0xF4, 0xCB]"
proof
  show "crc32Buffer [] = [0x00, 0x00, 0x00, 0x00]"
    by (simp add: crc32Buffer_def crc32_def writeUInt32LE_def)
  show "crc32Buffer (ascii ''123456789'') = [0x26, 0x39, 0xF4, 0xCB]"
    by (simp add: crc32Buffer_def crc32_check_value writeUInt32LE_def)
qed

text \<open>
  C7 as stated fails: the buffer for "123456789" is not the byte sequence
  \<open>CB F4 39 26\<close>, which is the big-endian rendering of the value.
\<close>

theorem crc32Buffer_not_big_endian:
  "crc32Buffer (ascii ''123456789'') \<noteq> [0xCB, 0xF4, 0x39, 0x26]"
  by (simp add: crc32Buffer_def crc32_check_value writeUInt32LE_def)

section \<open>Padding round trip\<close>

lemma padding_form: "0 < n \<Longrightarrow> (alloc n 0x00)[0 := 0x80] = 0x80 # replicate (n - 1) 0x00"
  by (cases n) (simp_all add: alloc_def)

lemma padData_form:
  "0 < b \<Longrightarrow> padData m b = m @ 0x80 # replicate (b - Suc (length m mod b)) 0x00"
  by (simp add: padData_def padding_form Let_def)

lemma unpadLoop_padding:
  "j \<le> k \<Longrightarrow> unpadLoop (m @ 0x80 # replicate k 0x00) (Suc (length m + j)) = m"
proof (induction j)
  case 0
  then show ?case by (simp add: slice_def nth_append)
next
  case (Suc j)
  then show ?case by (simp add: nth_append nth_Cons')
qed

lemma unpadData_padData_16: "unpadData (padData m 16) = m"
proof -
  have "unpadData (padData m 16) =
          unpadLoop (m @ 0x80 # replicate (16 - Suc (length m mod 16)) 0x00)
            (Suc (length m + (16 - Suc (length m mod 16))))"
    by (simp add: unpadData_def padData_form)
  also have "\<dots> = m"
    by (rule unpadLoop_padding) simp
  finally show ?thesis .
qed

lemma length_padData_16: "length (padData m 16) = 16 * (length m div 16 + 1)"
proof -
  have "length (padData m 16) = length m + (16 - length m mod 16)"
    by (simp add: padData_form)
  also have "\<dots> = 16 * (length m div 16 + 1)"
    by presburger
  finally show ?thesis .
qed

text \<open>
  C10: for every buffer \<open>m\<close>, unpadding the 16-byte padding of \<open>m\<close> gives \<open>m\<close> back,
  and the padded length is the smallest multiple of 16 strictly greater than the length
  of \<open>m\<close>: it is a multiple of 16, exceeds the length of \<open>m\<close>, and does so by at
  most 16. A buffer whose length is already a multiple of 16 gets a full block, \<open>80\<close>
  then fifteen zeros.
\<close>

theorem padData_unpadData_roundtrip:
  "unpadData (padData m 16) = m
   \<and> length (padData m 16) = 16 * (length m div 16 + 1)
   \<and> length (padData m 16) mod 16 = 0
   \<and> length m < length (padData m 16)
   \<and> length (padData m 16) \<le> length m + 16
   \<and> (length m mod 16 = 0 \<longrightarrow> padData m 16 = m @ 0x80 # replicate 15 0x00)"
proof -
  have len: "length (padData m 16) = 16 * (length m div 16 + 1)"
    by (rule length_padData_16)
  have gt: "length m < 16 * (length m div 16 + 1)"
    by presburger
  have le: "16 * (length m div 16 + 1) \<le> length m + 16"
    by presburger
  have full: "length m mod 16 = 0 \<longrightarrow> padData m 16 = m @ 0x80 # replicate 15 0x00"
    by (simp add: padData_form)
  show ?thesis
    using len gt le full by (simp add: unpadData_padData_16)
qed

theorem padData_unpadData_roundtrip_witness:
  "length (alloc 16 (0x41 :: byte)) mod 16 = 0
   \<and> unpadData (padData (alloc 16 0x41) 16) = alloc 16 0x41
   \<and> padData (alloc 16 0x41) 16 = alloc 16 0x41 @ 0x80 # replicate 15 0x00"
proof -
  have h: "length (alloc 16 (0x41 :: byte)) mod 16 = 0"
    by (simp add: alloc_def)
  from padData_unpadData_roundtrip [of "alloc 16 0x41"] h show ?thesis
    by blast
qed

section \<open>The transmit engine writes only the reader and the Le preference\<close>

lemma sameSession_refl: "sameSession st st"
  by (simp add: sameSession_def)

lemma sameSession_trans: "sameSession a b \<Longrightarrow> sameSession b c \<Longrightarrow> sameSession a c"
  unfolding sameSession_def
  by (cases a, cases b, cases c) simp

lemma sameSession_reader: "sameSession st (st\<lparr>reader := rd\<rparr>)"
  by (simp add: sameSession_def)

lemma sameSession_pref: "sameSession st st' \<Longrightarrow> sameSession st (st'\<lparr>preferNoLe := b\<rparr>)"
  unfolding sameSession_def
  by (cases st, cases st') simp

lemma if_reader:
  "(if c then (st::DESFireCard)\<lparr>reader := a\<rparr> else st\<lparr>reader := b\<rparr>)
     = st\<lparr>reader := (if c then a else b)\<rparr>"
  by simp

lemma transmitParsed_reader:
  "snd (transmitParsed apdu st) = st\<lparr>reader := reader (snd (transmitParsed apdu st))\<rparr>"
  by (simp add: transmitParsed_def Let_def split_beta if_distrib[where f = snd] if_reader)

lemma transmitParsed_same: "transmitParsed apdu st = (r, st') \<Longrightarrow> sameSession st st'"
  using transmitParsed_reader [of apdu st] sameSession_reader [of st "reader st'"]
  by simp

lemma tryTransmitLoop_same:
  "tryTransmitLoop attempts l st = (r, st') \<Longrightarrow> sameSession st st'"
proof (induction attempts l st arbitrary: r st' rule: tryTransmitLoop.induct)
  case (1 lastResp st)
  then show ?case by (auto simp: sameSession_refl split: option.splits)
next
  case (2 apdu usesLe rest lastResp st)
  obtain r1 st1 where tp: "transmitParsed apdu st = (r1, st1)"
    by (cases "transmitParsed apdu st")
  have s1: "sameSession st st1"
    using tp by (rule transmitParsed_same)
  show ?case
  proof (cases r1)
    case (Inl e)
    with 2 tp s1 show ?thesis by simp
  next
    case (Inr p)
    with 2 tp s1 show ?thesis
      by (auto split: if_splits intro: sameSession_pref sameSession_trans)
  qed
qed

lemma tryTransmitAttempts_same:
  "tryTransmitAttempts attempts st = (r, st') \<Longrightarrow> sameSession st st'"
  unfolding tryTransmitAttempts_def by (rule tryTransmitLoop_same)

lemma getAdditionalFrame_same_aux:
  assumes "getAdditionalFrame st = Some y"
  shows "sameSession st (snd y)"
proof (rule getAdditionalFrame.raw_induct[where P = "\<lambda>st y. sameSession st (snd y)", OF _ assms])
  fix gaf :: "DESFireCard \<Rightarrow> buffer outcome" and st y
  assume IH: "\<And>x y. gaf x = Some y \<Longrightarrow> sameSession x (snd y)"
  assume body: "(case tryTransmitAttempts (additionalFrameAttempts (preferNoLe st)) st of
        (Inl e, st1) \<Rightarrow> Some (Inl e, st1)
      | (Inr p, st1) \<Rightarrow>
          if isAdditionalFrame (resp_sw1 p) (resp_sw2 p)
          then Option.bind (gaf st1)
                 (\<lambda>r. case r of
                         (Inl e, st2) \<Rightarrow> Some (Inl e, st2)
                       | (Inr additionalData, st2) \<Rightarrow> Some (Inr (resp_data p @ additionalData), st2))
          else Some (Inr (resp_data p), st1)) = Some y"
  obtain r1 st1 where tta: "tryTransmitAttempts (additionalFrameAttempts (preferNoLe st)) st = (r1, st1)"
    by (cases "tryTransmitAttempts (additionalFrameAttempts (preferNoLe st)) st")
  have s1: "sameSession st st1"
    using tta by (rule tryTransmitAttempts_same)
  show "sameSession st (snd y)"
  proof (cases r1)
    case (Inl e)
    with body tta s1 show ?thesis by auto
  next
    case (Inr p)
    show ?thesis
    proof (cases "isAdditionalFrame (resp_sw1 p) (resp_sw2 p)")
      case False
      with Inr body tta s1 show ?thesis by auto
    next
      case True
      with Inr body tta obtain z where z: "gaf st1 = Some z"
        and zy: "(case z of
                    (Inl e, st2) \<Rightarrow> Some (Inl e, st2)
                  | (Inr additionalData, st2) \<Rightarrow> Some (Inr (resp_data p @ additionalData), st2)) = Some y"
        by (auto simp: bind_eq_Some_conv)
      obtain a b where ab: "z = (a, b)" by (cases z)
      have "snd y = snd z" using zy ab by (cases a) auto
      with IH[OF z] s1 show ?thesis by (auto intro: sameSession_trans)
    qed
  qed
qed

lemma sendCommand_same:
  assumes "sendCommand cmd dat st = Some (r, st')"
  shows "sameSession st st'"
proof -
  obtain r1 st1 where tta: "tryTransmitAttempts (commandAttempts (preferNoLe st) cmd dat) st = (r1, st1)"
    by (cases "tryTransmitAttempts (commandAttempts (preferNoLe st) cmd dat) st")
  have s1: "sameSession st st1"
    using tta by (rule tryTransmitAttempts_same)
  show ?thesis
  proof (cases r1)
    case (Inl e)
    with assms tta s1 show ?thesis by (auto simp: sendCommand_def)
  next
    case (Inr p)
    show ?thesis
    proof (cases "isAdditionalFrame (resp_sw1 p) (resp_sw2 p)")
      case False
      with Inr assms tta s1 show ?thesis by (auto simp: sendCommand_def split: if_splits)
    next
      case True
      with Inr assms tta obtain z where z: "getAdditionalFrame st1 = Some z" and "st' = snd z"
        by (auto simp: sendCommand_def awaitThen_def split: if_splits option.splits prod.splits sum.splits)
      with getAdditionalFrame_same_aux[OF z] s1 show ?thesis by (auto intro: sameSession_trans)
    qed
  qed
qed

section \<open>Exchanges with a reader that answers\<close>

lemma parse_append: "parse (d @ [a, b]) = Inr \<lparr>resp_sw1 = a, resp_sw2 = b, resp_data = d\<rparr>"
  by (simp add: parse_def slice_def nth_append)

lemma transmitParsed_answer:
  assumes "answer st [apdu] = Some (d @ [a, b])"
  shows "transmitParsed apdu st =
           (Inr \<lparr>resp_sw1 = a, resp_sw2 = b, resp_data = d\<rparr>, afterFrames st [apdu])"
  using assms
  by (simp add: answer_def afterFrames_def transmitParsed_def transmit_def Let_def usable_def
        orEmpty_def parse_append)

lemma accepted_not_lengthError:
  "isSuccess a b \<or> isAdditionalFrame a b \<Longrightarrow> \<not> isLengthError a b"
  by (auto simp: isSuccess_def isAdditionalFrame_def isLengthError_def)

lemma afterFrames_Nil: "afterFrames st [] = st"
  by (simp add: afterFrames_def)

lemma afterFrames_append: "afterFrames (afterFrames st xs) ys = afterFrames st (xs @ ys)"
  by (simp add: afterFrames_def)

lemma answer_afterFrames: "answer (afterFrames st xs) ys = answer st (xs @ ys)"
  by (simp add: afterFrames_def answer_def)

lemma answer_pref: "answer (st\<lparr>preferNoLe := b\<rparr>) ys = answer st ys"
  by (simp add: answer_def)

lemma preferNoLe_afterFrames: "preferNoLe (afterFrames st xs) = preferNoLe st"
  by (simp add: afterFrames_def)

lemma afterFrames_pref_same: "(afterFrames st xs)\<lparr>preferNoLe := preferNoLe st\<rparr> = afterFrames st xs"
  by (simp add: afterFrames_def)

lemma exchange_first:
  assumes "answer st [apdu] = Some (d @ [a, b])" and "\<not> isLengthError a b"
  shows "tryTransmitAttempts ((apdu, usesLe) # rest) st =
           (Inr \<lparr>resp_sw1 = a, resp_sw2 = b, resp_data = d\<rparr>,
            (afterFrames st [apdu])
              \<lparr>preferNoLe := (if isSuccess a b \<or> isAdditionalFrame a b then \<not> usesLe else preferNoLe st)\<rparr>)"
  using assms
  by (simp add: tryTransmitAttempts_def transmitParsed_answer afterFrames_pref_same)


lemma additionalFrameAttempts_eq:
  "additionalFrameAttempts pref = (afFrame pref, \<not> pref) # tl (additionalFrameAttempts pref)"
  by (simp add: additionalFrameAttempts_def leAttempts_def afFrame_def)

lemma commandAttempts_eq:
  "commandAttempts pref cmd dat = (commandFrame pref cmd dat, \<not> pref) # tl (commandAttempts pref cmd dat)"
  by (simp add: commandAttempts_def leAttempts_def commandFrame_def)

lemma exchange_accepted_preferred:
  assumes "answer st [apdu] = Some (d @ [a, b])" and "isSuccess a b \<or> isAdditionalFrame a b"
  shows "tryTransmitAttempts ((apdu, \<not> preferNoLe st) # rest) st =
           (Inr \<lparr>resp_sw1 = a, resp_sw2 = b, resp_data = d\<rparr>, afterFrames st [apdu])"
  using assms exchange_first[OF assms(1) accepted_not_lengthError[OF assms(2)]]
  by (simp add: afterFrames_pref_same)

section \<open>Multi-frame reassembly\<close>

lemma getAdditionalFrame_continue:
  assumes "answer st [afFrame (preferNoLe st)] = Some (d @ [0x91, 0xAF])"
  shows "getAdditionalFrame st =
           Option.bind (getAdditionalFrame (afterFrames st [afFrame (preferNoLe st)]))
             (\<lambda>r. case r of
                     (Inl e, st2) \<Rightarrow> Some (Inl e, st2)
                   | (Inr additionalData, st2) \<Rightarrow> Some (Inr (d @ additionalData), st2))"
proof -
  have acc: "isSuccess 0x91 0xAF \<or> isAdditionalFrame 0x91 0xAF"
    by (simp add: isAdditionalFrame_def)
  have ex: "tryTransmitAttempts (additionalFrameAttempts (preferNoLe st)) st =
              (Inr \<lparr>resp_sw1 = 0x91, resp_sw2 = 0xAF, resp_data = d\<rparr>,
               afterFrames st [afFrame (preferNoLe st)])"
    by (subst additionalFrameAttempts_eq) (rule exchange_accepted_preferred[OF assms acc])
  show ?thesis
    by (subst getAdditionalFrame.simps)
       (simp add: ex isAdditionalFrame_def cong: sum.case_cong)
qed

lemma getAdditionalFrame_final:
  assumes "tryTransmitAttempts (additionalFrameAttempts (preferNoLe st)) st = (Inr p, st')"
      and "\<not> isAdditionalFrame (resp_sw1 p) (resp_sw2 p)"
  shows "getAdditionalFrame st = Some (Inr (resp_data p), st')"
  by (subst getAdditionalFrame.simps) (simp add: assms)

lemma getAdditionalFrame_chain:
  assumes "\<forall>i<length frags.
             answer st (replicate (Suc i) (afFrame (preferNoLe st))) = Some (frags ! i @ [0x91, 0xAF])"
      and "tryTransmitAttempts (additionalFrameAttempts (preferNoLe st))
             (afterFrames st (replicate (length frags) (afFrame (preferNoLe st)))) = (Inr p, st')"
      and "\<not> isAdditionalFrame (resp_sw1 p) (resp_sw2 p)"
  shows "getAdditionalFrame st = Some (Inr (concat frags @ resp_data p), st')"
  using assms
proof (induction frags arbitrary: st)
  case Nil
  then show ?case
    by (simp add: afterFrames_Nil getAdditionalFrame_final)
next
  case (Cons d ds)
  let ?af = "afFrame (preferNoLe st)"
  let ?st1 = "afterFrames st [?af]"
  have first: "answer st [?af] = Some (d @ [0x91, 0xAF])"
    using Cons.prems(1) by force
  have rest: "\<forall>i<length ds.
                answer ?st1 (replicate (Suc i) (afFrame (preferNoLe ?st1))) = Some (ds ! i @ [0x91, 0xAF])"
  proof (intro allI impI)
    fix i assume "i < length ds"
    then have "answer st (replicate (Suc (Suc i)) ?af) = Some ((d # ds) ! Suc i @ [0x91, 0xAF])"
      using Cons.prems(1) by force
    then show "answer ?st1 (replicate (Suc i) (afFrame (preferNoLe ?st1))) = Some (ds ! i @ [0x91, 0xAF])"
      by (simp add: answer_afterFrames preferNoLe_afterFrames)
  qed
  have fin: "tryTransmitAttempts (additionalFrameAttempts (preferNoLe ?st1))
               (afterFrames ?st1 (replicate (length ds) (afFrame (preferNoLe ?st1)))) = (Inr p, st')"
    using Cons.prems(2) by (simp add: afterFrames_append preferNoLe_afterFrames)
  have "getAdditionalFrame ?st1 = Some (Inr (concat ds @ resp_data p), st')"
    by (rule Cons.IH[OF rest fin Cons.prems(3)])
  then show ?case
    by (simp add: getAdditionalFrame_continue[OF first])
qed

lemma sendCommand_chain:
  assumes first: "answer st [commandFrame (preferNoLe st) cmd dat] = Some (d0 @ [0x91, 0xAF])"
      and more: "\<forall>i<length frags.
                   answer st (commandFrame (preferNoLe st) cmd dat
                              # replicate (Suc i) (afFrame (preferNoLe st)))
                     = Some (frags ! i @ [0x91, 0xAF])"
      and fin: "tryTransmitAttempts (additionalFrameAttempts (preferNoLe st))
                  (afterFrames st (commandFrame (preferNoLe st) cmd dat
                                   # replicate (length frags) (afFrame (preferNoLe st))))
                  = (Inr p, st')"
      and nonaf: "\<not> isAdditionalFrame (resp_sw1 p) (resp_sw2 p)"
  shows "sendCommand cmd dat st = Some (Inr (d0 @ concat frags @ resp_data p), st')"
proof -
  let ?f = "commandFrame (preferNoLe st) cmd dat"
  let ?st1 = "afterFrames st [?f]"
  have acc: "isSuccess 0x91 0xAF \<or> isAdditionalFrame 0x91 0xAF"
    by (simp add: isAdditionalFrame_def)
  have ex: "tryTransmitAttempts (commandAttempts (preferNoLe st) cmd dat) st =
              (Inr \<lparr>resp_sw1 = 0x91, resp_sw2 = 0xAF, resp_data = d0\<rparr>, ?st1)"
    by (subst commandAttempts_eq) (rule exchange_accepted_preferred[OF first acc])
  have rest: "\<forall>i<length frags.
                answer ?st1 (replicate (Suc i) (afFrame (preferNoLe ?st1))) = Some (frags ! i @ [0x91, 0xAF])"
    using more by (simp add: answer_afterFrames preferNoLe_afterFrames)
  have fin': "tryTransmitAttempts (additionalFrameAttempts (preferNoLe ?st1))
               (afterFrames ?st1 (replicate (length frags) (afFrame (preferNoLe ?st1)))) = (Inr p, st')"
    using fin by (simp add: afterFrames_append preferNoLe_afterFrames)
  have "getAdditionalFrame ?st1 = Some (Inr (concat frags @ resp_data p), st')"
    by (rule getAdditionalFrame_chain[OF rest fin' nonaf])
  then show ?thesis
    by (simp add: sendCommand_def ex isAdditionalFrame_def isSuccess_def awaitThen_def)
qed

lemma sendCommand_completed:
  assumes first: "answer st [commandFrame (preferNoLe st) cmd dat] = Some (d0 @ [0x91, 0xAF])"
      and more: "\<forall>i<length frags.
                   answer st (commandFrame (preferNoLe st) cmd dat
                              # replicate (Suc i) (afFrame (preferNoLe st)))
                     = Some (frags ! i @ [0x91, 0xAF])"
      and final: "answer st (commandFrame (preferNoLe st) cmd dat
                             # replicate (Suc (length frags)) (afFrame (preferNoLe st)))
                    = Some (fin @ [0x91, 0x00])"
  shows "sendCommand cmd dat st =
           Some (Inr (d0 @ concat frags @ fin),
                 afterFrames st (commandFrame (preferNoLe st) cmd dat
                                 # replicate (Suc (length frags)) (afFrame (preferNoLe st))))"
proof -
  let ?f = "commandFrame (preferNoLe st) cmd dat"
  let ?af = "afFrame (preferNoLe st)"
  let ?stn = "afterFrames st (?f # replicate (length frags) ?af)"
  have acc: "isSuccess 0x91 0x00 \<or> isAdditionalFrame 0x91 0x00"
    by (simp add: isSuccess_def)
  have last: "answer ?stn [?af] = Some (fin @ [0x91, 0x00])"
    using final by (simp add: answer_afterFrames replicate_append_same)
  have "tryTransmitAttempts ((?af, \<not> preferNoLe ?stn) # tl (additionalFrameAttempts (preferNoLe st))) ?stn =
          (Inr \<lparr>resp_sw1 = 0x91, resp_sw2 = 0x00, resp_data = fin\<rparr>, afterFrames ?stn [?af])"
    by (rule exchange_accepted_preferred[OF last acc])
  then have ex: "tryTransmitAttempts (additionalFrameAttempts (preferNoLe st)) ?stn =
          (Inr \<lparr>resp_sw1 = 0x91, resp_sw2 = 0x00, resp_data = fin\<rparr>,
           afterFrames st (?f # replicate (Suc (length frags)) ?af))"
    by (subst additionalFrameAttempts_eq)
       (simp add: preferNoLe_afterFrames afterFrames_append replicate_append_same)
  have "sendCommand cmd dat st =
          Some (Inr (d0 @ concat frags @ resp_data \<lparr>resp_sw1 = 0x91, resp_sw2 = 0x00, resp_data = fin\<rparr>),
                afterFrames st (?f # replicate (Suc (length frags)) ?af))"
    by (rule sendCommand_chain[OF first more ex]) (simp add: isAdditionalFrame_def)
  then show ?thesis by simp
qed

text \<open>
  C4: when the first response to a command carries status \<open>91 AF\<close> and every further
  ADDITIONAL_FRAME request is answered \<open>91 AF\<close> until one is answered \<open>91 00\<close>,
  \<open>sendCommand\<close> returns the payload of the initial response followed by the payloads
  of all the successive responses, in order, up to and including that of the \<open>91 00\<close>
  response.
\<close>

theorem sendCommand_reassembles_frames:
  assumes "answer st [commandFrame (preferNoLe st) cmd dat] = Some (d0 @ [0x91, 0xAF])"
      and "\<forall>i<length frags.
             answer st (commandFrame (preferNoLe st) cmd dat
                        # replicate (Suc i) (afFrame (preferNoLe st)))
               = Some (frags ! i @ [0x91, 0xAF])"
      and "answer st (commandFrame (preferNoLe st) cmd dat
                      # replicate (Suc (length frags)) (afFrame (preferNoLe st)))
             = Some (fin @ [0x91, 0x00])"
  shows "sendCommand cmd dat st =
           Some (Inr (d0 @ concat frags @ fin),
                 afterFrames st (commandFrame (preferNoLe st) cmd dat
                                 # replicate (Suc (length frags)) (afFrame (preferNoLe st))))"
  using assms by (rule sendCommand_completed)

theorem sendCommand_reassembles_frames_witness:
  "sendCommand 0x6A None
     (newCard (scripted [Some [0x01, 0x02, 0x91, 0xAF], Some [0x03, 0x91, 0xAF],
                         Some [0x04, 0x05, 0x91, 0x00]]) None)
   = Some (Inr [0x01, 0x02, 0x03, 0x04, 0x05],
           afterFrames
             (newCard (scripted [Some [0x01, 0x02, 0x91, 0xAF], Some [0x03, 0x91, 0xAF],
                                 Some [0x04, 0x05, 0x91, 0x00]]) None)
             [[0x90, 0x6A, 0x00, 0x00], [0x90, 0xAF, 0x00, 0x00], [0x90, 0xAF, 0x00, 0x00]])"
proof -
  let ?st = "newCard (scripted [Some [0x01, 0x02, 0x91, 0xAF], Some [0x03, 0x91, 0xAF],
                                Some [0x04, 0x05, 0x91, 0x00]]) None"
  have p: "preferNoLe ?st" by (simp add: newCard_def)
  have cf: "commandFrame True 0x6A None = [0x90, 0x6A, 0x00, 0x00]"
    by (simp add: commandFrame_def commandAttempts_def leAttempts_def)
  have af: "afFrame True = [0x90, 0xAF, 0x00, 0x00]"
    by (simp add: afFrame_def additionalFrameAttempts_def leAttempts_def)
  have 1: "answer ?st [commandFrame (preferNoLe ?st) 0x6A None] = Some ([0x01, 0x02] @ [0x91, 0xAF])"
    by (simp add: p cf) (simp add: answer_def newCard_def scripted_def)
  have 2: "\<forall>i<length [[0x03 :: byte]].
             answer ?st (commandFrame (preferNoLe ?st) 0x6A None
                         # replicate (Suc i) (afFrame (preferNoLe ?st)))
               = Some ([[0x03]] ! i @ [0x91, 0xAF])"
    by (simp add: p cf af) (simp add: answer_def newCard_def scripted_def)
  have 3: "answer ?st (commandFrame (preferNoLe ?st) 0x6A None
                       # replicate (Suc (length [[0x03 :: byte]])) (afFrame (preferNoLe ?st)))
             = Some ([0x04, 0x05] @ [0x91, 0x00])"
    by (simp add: p cf af) (simp add: answer_def newCard_def scripted_def)
  from sendCommand_reassembles_frames[OF 1 2 3] show ?thesis
    by (simp add: p cf af)
qed

section \<open>Truncated transfers\<close>

text \<open>
  C8: during reassembly, when the ADDITIONAL_FRAME exchange that follows the
  continuation responses received so far yields a response whose status is neither
  success nor continuation (\<open>91 AE\<close>, say), \<open>getAdditionalFrame\<close> stops there and
  \<open>sendCommand\<close> returns normally, with the payloads accumulated so far and the payload
  of that response; no error is raised. A completed transfer that delivers the same
  payloads, ending in \<open>91 00\<close>, makes \<open>sendCommand\<close> return the same value, so the
  caller cannot tell the two apart.
\<close>

theorem truncated_transfer_returns_normally:
  assumes "answer st [commandFrame (preferNoLe st) cmd dat] = Some (d0 @ [0x91, 0xAF])"
      and "\<forall>i<length frags.
             answer st (commandFrame (preferNoLe st) cmd dat
                        # replicate (Suc i) (afFrame (preferNoLe st)))
               = Some (frags ! i @ [0x91, 0xAF])"
      and "tryTransmitAttempts (additionalFrameAttempts (preferNoLe st))
             (afterFrames st (commandFrame (preferNoLe st) cmd dat
                              # replicate (length frags) (afFrame (preferNoLe st))))
             = (Inr p, st')"
      and "\<not> isSuccess (resp_sw1 p) (resp_sw2 p)"
      and "\<not> isAdditionalFrame (resp_sw1 p) (resp_sw2 p)"
      and "answer stC [commandFrame (preferNoLe stC) cmd dat] = Some (d0 @ [0x91, 0xAF])"
      and "\<forall>i<length frags.
             answer stC (commandFrame (preferNoLe stC) cmd dat
                         # replicate (Suc i) (afFrame (preferNoLe stC)))
               = Some (frags ! i @ [0x91, 0xAF])"
      and "answer stC (commandFrame (preferNoLe stC) cmd dat
                       # replicate (Suc (length frags)) (afFrame (preferNoLe stC)))
             = Some (resp_data p @ [0x91, 0x00])"
  shows "sendCommand cmd dat st = Some (Inr (d0 @ concat frags @ resp_data p), st')
         \<and> map_option fst (sendCommand cmd dat stC) = map_option fst (sendCommand cmd dat st)"
proof -
  have truncated: "sendCommand cmd dat st = Some (Inr (d0 @ concat frags @ resp_data p), st')"
    using assms(1,2,3,5) by (rule sendCommand_chain)
  have completed: "sendCommand cmd dat stC =
          Some (Inr (d0 @ concat frags @ resp_data p),
                afterFrames stC (commandFrame (preferNoLe stC) cmd dat
                                 # replicate (Suc (length frags)) (afFrame (preferNoLe stC))))"
    using assms(6,7,8) by (rule sendCommand_completed)
  show ?thesis
    by (simp add: truncated completed)
qed

theorem truncated_transfer_returns_normally_witness:
  "sendCommand 0xBD (Some [0x01, 0x00, 0x00, 0x00, 0x05, 0x00, 0x00])
     (newCard (scripted [Some [0x01, 0x02, 0x91, 0xAF], Some [0x03, 0x91, 0xAF],
                         Some [0x04, 0x05, 0x91, 0xAE]]) None)
   = Some (Inr [0x01, 0x02, 0x03, 0x04, 0x05],
           afterFrames
             (newCard (scripted [Some [0x01, 0x02, 0x91, 0xAF], Some [0x03, 0x91, 0xAF],
                                 Some [0x04, 0x05, 0x91, 0xAE]]) None)
             [[0x90, 0xBD, 0x00, 0x00, 0x07, 0x01, 0x00, 0x00, 0x00, 0x05, 0x00, 0x00],
              [0x90, 0xAF, 0x00, 0x00], [0x90, 0xAF, 0x00, 0x00]])
   \<and> map_option fst
         (sendCommand 0xBD (Some [0x01, 0x00, 0x00, 0x00, 0x05, 0x00, 0x00])
            (newCard (scripted [Some [0x01, 0x02, 0x91, 0xAF], Some [0x03, 0x91, 0xAF],
                                Some [0x04, 0x05, 0x91, 0x00]]) None))
       = map_option fst
           (sendCommand 0xBD (Some [0x01, 0x00, 0x00, 0x00, 0x05, 0x00, 0x00])
              (newCard (scripted [Some [0x01, 0x02, 0x91, 0xAF], Some [0x03, 0x91, 0xAF],
                                  Some [0x04, 0x05, 0x91, 0xAE]]) None))"
proof -
  let ?dat = "Some [0x01, 0x00, 0x00, 0x00, 0x05, 0x00, 0x00 :: byte]"
  let ?st = "newCard (scripted [Some [0x01, 0x02, 0x91, 0xAF], Some [0x03, 0x91, 0xAF],
                                Some [0x04, 0x05, 0x91, 0xAE]]) None"
  let ?stC = "newCard (scripted [Some [0x01, 0x02, 0x91, 0xAF], Some [0x03, 0x91, 0xAF],
                                 Some [0x04, 0x05, 0x91, 0x00]]) None"
  let ?p = "\<lparr>resp_sw1 = 0x91, resp_sw2 = 0xAE, resp_data = [0x04, 0x05]\<rparr>"
  let ?frames = "[[0x90, 0xBD, 0x00, 0x00, 0x07, 0x01, 0x00, 0x00, 0x00, 0x05, 0x00, 0x00],
                  [0x90, 0xAF, 0x00, 0x00], [0x90, 0xAF, 0x00, 0x00 :: byte]]"
  have p: "preferNoLe ?st" "preferNoLe ?stC"
    by (simp_all add: newCard_def)
  have cf: "commandFrame True 0xBD ?dat
              = [0x90, 0xBD, 0x00, 0x00, 0x07, 0x01, 0x00, 0x00, 0x00, 0x05, 0x00, 0x00]"
    by (simp add: commandFrame_def commandAttempts_def leAttempts_def build_def toByte_def)
  have af: "afFrame True = [0x90, 0xAF, 0x00, 0x00]"
    by (simp add: afFrame_def additionalFrameAttempts_def leAttempts_def)
  have 1: "answer ?st [commandFrame (preferNoLe ?st) 0xBD ?dat] = Some ([0x01, 0x02] @ [0x91, 0xAF])"
    by (simp add: p cf) (simp add: answer_def newCard_def scripted_def)
  have 2: "\<forall>i<length [[0x03 :: byte]].
             answer ?st (commandFrame (preferNoLe ?st) 0xBD ?dat
                         # replicate (Suc i) (afFrame (preferNoLe ?st)))
               = Some ([[0x03]] ! i @ [0x91, 0xAF])"
    by (simp add: p cf af) (simp add: answer_def newCard_def scripted_def)
  have 3: "tryTransmitAttempts (additionalFrameAttempts (preferNoLe ?st))
             (afterFrames ?st (commandFrame (preferNoLe ?st) 0xBD ?dat
                               # replicate (length [[0x03 :: byte]]) (afFrame (preferNoLe ?st))))
             = (Inr ?p, afterFrames ?st ?frames)"
    by (simp add: p cf af)
       (simp add: additionalFrameAttempts_def leAttempts_def tryTransmitAttempts_def
          transmitParsed_def transmit_def Let_def usable_def orEmpty_def parse_def slice_def
          afterFrames_def newCard_def scripted_def isSuccess_def isAdditionalFrame_def
          isLengthError_def)
  have 4: "\<not> isSuccess (resp_sw1 ?p) (resp_sw2 ?p)"
    by (simp add: isSuccess_def)
  have 5: "\<not> isAdditionalFrame (resp_sw1 ?p) (resp_sw2 ?p)"
    by (simp add: isAdditionalFrame_def)
  have 6: "answer ?stC [commandFrame (preferNoLe ?stC) 0xBD ?dat] = Some ([0x01, 0x02] @ [0x91, 0xAF])"
    by (simp add: p cf) (simp add: answer_def newCard_def scripted_def)
  have 7: "\<forall>i<length [[0x03 :: byte]].
             answer ?stC (commandFrame (preferNoLe ?stC) 0xBD ?dat
                          # replicate (Suc i) (afFrame (preferNoLe ?stC)))
               = Some ([[0x03]] ! i @ [0x91, 0xAF])"
    by (simp add: p cf af) (simp add: answer_def newCard_def scripted_def)
  have 8: "answer ?stC (commandFrame (preferNoLe ?stC) 0xBD ?dat
                        # replicate (Suc (length [[0x03 :: byte]])) (afFrame (preferNoLe ?stC)))
             = Some (resp_data ?p @ [0x91, 0x00])"
    by (simp add: p cf af) (simp add: answer_def newCard_def scripted_def)
  from truncated_transfer_returns_normally[OF 1 2 3 4 5 6 7 8] show ?thesis
    by simp
qed

section \<open>Le negotiation\<close>

lemma success_not_additionalFrame: "isSuccess a b \<Longrightarrow> \<not> isAdditionalFrame a b"
  by (auto simp: isSuccess_def isAdditionalFrame_def)





section \<open>Chunked writes\<close>

lemma two_last:
  assumes "2 \<le> length (resp :: buffer)"
  shows "\<exists>d. resp = d @ [resp ! (length resp - 2), resp ! (length resp - 1)]"
proof (cases resp rule: rev_cases)
  case Nil
  with assms show ?thesis by simp
next
  case (snoc ys b)
  show ?thesis
  proof (cases ys rule: rev_cases)
    case Nil
    with snoc assms show ?thesis by simp
  next
    case (snoc zs a)
    with \<open>resp = ys @ [b]\<close> have "resp = zs @ [a, b]" by simp
    then show ?thesis by (simp add: nth_append)
  qed
qed

lemma acceptedE:
  assumes "accepted r"
  obtains d a b where "r = Some (d @ [a, b])" and "isSuccess a b \<or> isAdditionalFrame a b"
proof -
  from assms obtain resp where r: "r = Some resp" and len: "2 \<le> length resp"
    and acc: "isSuccess (resp ! (length resp - 2)) (resp ! (length resp - 1))
             \<or> isAdditionalFrame (resp ! (length resp - 2)) (resp ! (length resp - 1))"
    by (auto simp: accepted_def split: option.splits)
  from two_last[OF len] obtain d where "resp = d @ [resp ! (length resp - 2), resp ! (length resp - 1)]" ..
  with r acc that show ?thesis by blast
qed

lemma slice_chunk:
  "sent < length dat \<Longrightarrow>
     slice dat sent (sent + min (length dat - sent) MAX_CHUNK) = take 40 (drop sent dat)"
  by (simp add: slice_def MAX_CHUNK_def min_def)

lemma chunked_drop_step:
  "sent < length dat \<Longrightarrow>
     chunked 40 (drop sent dat)
       = take 40 (drop sent dat) # chunked 40 (drop (sent + length (take 40 (drop sent dat))) dat)"
proof -
  assume lt: "sent < length dat"
  have eq: "drop (sent + length (take 40 (drop sent dat))) dat = drop 40 (drop sent dat)"
  proof (cases "length dat - sent < 40")
    case True
    then show ?thesis by (simp add: min_def)
  next
    case False
    then show ?thesis by (simp add: min_def add.commute)
  qed
  from lt have "drop sent dat \<noteq> []" by simp
  then have "chunked 40 (drop sent dat)
               = take 40 (drop sent dat) # chunked 40 (drop 40 (drop sent dat))"
    by (subst chunked.simps) simp
  then show ?thesis
    by (simp only: eq)
qed

lemma build_af_data: "build 0x90 0xAF 0x00 0x00 (Some c) (Some 0) = afDataFrame c"
  by (simp add: build_def afDataFrame_def toByte_def)

lemma writeLoop_run:
  assumes "\<forall>k<length (chunked 40 (drop sent dat)).
             accepted (answer st (take (Suc k) (map afDataFrame (chunked 40 (drop sent dat)))))"
  shows "writeLoop dat sent st = (Inr (), afterFrames st (map afDataFrame (chunked 40 (drop sent dat))))"
  using assms
proof (induction "length dat - sent" arbitrary: sent st rule: less_induct)
  case less
  show ?case
  proof (cases "sent < length dat")
    case False
    then have "chunked 40 (drop sent dat) = []"
      by (subst chunked.simps) simp
    with False show ?thesis
      by (subst writeLoop.simps) (simp add: afterFrames_Nil)
  next
    case True
    let ?c = "take 40 (drop sent dat)"
    let ?sent' = "sent + length ?c"
    let ?rest = "chunked 40 (drop ?sent' dat)"
    have step: "chunked 40 (drop sent dat) = ?c # ?rest"
      using True by (rule chunked_drop_step)
    have cpos: "0 < length ?c" using True by simp
    have "accepted (answer st (take (Suc 0) (map afDataFrame (chunked 40 (drop sent dat)))))"
      using less.prems step by (metis length_Cons zero_less_Suc)
    then have "accepted (answer st [afDataFrame ?c])"
      by (simp add: step)
    then obtain d a b where ans: "answer st [afDataFrame ?c] = Some (d @ [a, b])"
      and acc: "isSuccess a b \<or> isAdditionalFrame a b"
      by (rule acceptedE)
    have nle: "\<not> isLengthError a b"
      using acc by (rule accepted_not_lengthError)
    let ?st1 = "afterFrames st [afDataFrame ?c]"
    have tp: "transmitParsed (afDataFrame ?c) st
                = (Inr \<lparr>resp_sw1 = a, resp_sw2 = b, resp_data = d\<rparr>, ?st1)"
      using ans by (rule transmitParsed_answer)
    have hyp: "\<forall>k<length ?rest. accepted (answer ?st1 (take (Suc k) (map afDataFrame ?rest)))"
    proof (intro allI impI)
      fix k assume "k < length ?rest"
      then have "Suc k < length (chunked 40 (drop sent dat))" by (simp add: step)
      then have "accepted (answer st (take (Suc (Suc k)) (map afDataFrame (chunked 40 (drop sent dat)))))"
        using less.prems by blast
      then show "accepted (answer ?st1 (take (Suc k) (map afDataFrame ?rest)))"
        by (simp add: step answer_afterFrames)
    qed
    have "length dat - ?sent' < length dat - sent"
      using True cpos by linarith
    then have IH: "writeLoop dat ?sent' ?st1 = (Inr (), afterFrames ?st1 (map afDataFrame ?rest))"
      using less.hyps hyp by blast
    have "writeLoop dat sent st = writeLoop dat ?sent' ?st1"
      using True nle acc
      by (subst writeLoop.simps) (simp add: Let_def slice_chunk build_af_data tp)
    with IH show ?thesis
      by (simp add: step afterFrames_append)
  qed
qed


lemma writeUIntLE_3: "v < 2 ^ 24 \<Longrightarrow> writeUIntLE v 3 = Inr (le3 v)"
  by (simp add: writeUIntLE_def le3_def upt_rec numeral_3_eq_3)

lemma first_chunk: "slice dat 0 (min (length dat) MAX_CHUNK) = take 40 dat"
  by (simp add: slice_def MAX_CHUNK_def min_def)

lemma chunked_after_first:
  "chunked 40 (drop (min (length dat) 40) dat) = chunked 40 (drop 40 dat)"
proof (cases "length dat < 40")
  case True
  then show ?thesis by (simp add: min_def)
next
  case False
  then show ?thesis by (simp add: min_def)
qed

lemma writeData_run:
  assumes off: "offset < 2 ^ 24" and len: "length dat < 2 ^ 24"
      and acc: "\<forall>k<length (specWriteFrames fileNo offset dat).
                  accepted (answer st (take (Suc k) (specWriteFrames fileNo offset dat)))"
  shows "writeData fileNo offset dat st = (Inr (), afterFrames st (specWriteFrames fileNo offset dat))"
proof -
  let ?payload = "[toByte fileNo] @ le3 offset @ le3 (length dat) @ take 40 dat"
  let ?lead = "[0x90, 0x3D, 0x00, 0x00, toByte (7 + length (take 40 dat))] @ ?payload @ [0x00]"
  let ?rest = "map afDataFrame (chunked 40 (drop 40 dat))"
  have frames: "specWriteFrames fileNo offset dat = ?lead # ?rest"
    by (simp add: specWriteFrames_def)
  have lead: "buildDESFire 0x3D (Some ?payload) 0 = ?lead"
    by (simp add: buildDESFire_def build_def toByte_def le3_def)
  have "accepted (answer st (take (Suc 0) (specWriteFrames fileNo offset dat)))"
    using acc frames by (metis length_Cons zero_less_Suc)
  then have "accepted (answer st [?lead])"
    by (simp add: frames)
  then obtain d a b where ans: "answer st [?lead] = Some (d @ [a, b])"
    and ok: "isSuccess a b \<or> isAdditionalFrame a b"
    by (rule acceptedE)
  let ?st1 = "afterFrames st [?lead]"
  have tp: "transmitParsed ?lead st = (Inr \<lparr>resp_sw1 = a, resp_sw2 = b, resp_data = d\<rparr>, ?st1)"
    using ans by (rule transmitParsed_answer)
  have hyp: "\<forall>k<length (chunked 40 (drop (length (take 40 dat)) dat)).
               accepted (answer ?st1 (take (Suc k)
                 (map afDataFrame (chunked 40 (drop (length (take 40 dat)) dat)))))"
  proof (intro allI impI)
    fix k assume "k < length (chunked 40 (drop (length (take 40 dat)) dat))"
    then have "Suc k < length (specWriteFrames fileNo offset dat)"
      by (simp add: frames chunked_after_first)
    then have "accepted (answer st (take (Suc (Suc k)) (specWriteFrames fileNo offset dat)))"
      using acc by blast
    then show "accepted (answer ?st1 (take (Suc k)
                 (map afDataFrame (chunked 40 (drop (length (take 40 dat)) dat)))))"
      by (simp add: frames answer_afterFrames chunked_after_first)
  qed
  have loop: "writeLoop dat (length (take 40 dat)) ?st1 = (Inr (), afterFrames ?st1 ?rest)"
    using writeLoop_run[OF hyp] by (simp add: chunked_after_first)
  have tp': "transmitParsed (buildDESFire 0x3D (Some ?payload) 0) st
               = (Inr \<lparr>resp_sw1 = a, resp_sw2 = b, resp_data = d\<rparr>, ?st1)"
    using tp by (simp only: lead)
  have "writeData fileNo offset dat st = writeLoop dat (length (take 40 dat)) ?st1"
    using ok tp'
    by (simp add: writeData_def writeUIntLE_3[OF off] writeUIntLE_3[OF len] Let_def first_chunk)
  with loop show ?thesis
    by (simp add: frames afterFrames_append)
qed

lemma concat_chunked: "0 < n \<Longrightarrow> concat (chunked n xs) = xs"
proof (induction n xs rule: chunked.induct)
  case (1 n xs)
  show ?case
  proof (cases "xs = []")
    case True
    then show ?thesis by (subst chunked.simps) simp
  next
    case False
    with 1 have "concat (chunked n (drop n xs)) = drop n xs" by simp
    with False 1(2) show ?thesis by (subst chunked.simps) simp
  qed
qed

lemma length_chunked: "c \<in> set (chunked n xs) \<Longrightarrow> length c \<le> n"
proof (induction n xs rule: chunked.induct)
  case (1 n xs)
  show ?case
  proof (cases "n = 0 \<or> xs = []")
    case True
    with 1(2) show ?thesis by (subst (asm) chunked.simps) simp
  next
    case False
    from 1(2) False have "c = take n xs \<or> c \<in> set (chunked n (drop n xs))"
      by (subst (asm) chunked.simps) auto
    with 1(1) False show ?thesis by auto
  qed
qed

lemma chunked_130:
  assumes "length dat = 130"
  shows "chunked 40 (drop 40 dat) = [take 40 (drop 40 dat), take 40 (drop 80 dat), drop 120 dat]"
proof -
  have 1: "chunked 40 (drop 40 dat) = take 40 (drop 40 dat) # chunked 40 (drop 80 dat)"
    using assms by (subst chunked.simps) simp
  have 2: "chunked 40 (drop 80 dat) = take 40 (drop 80 dat) # chunked 40 (drop 120 dat)"
    using assms by (subst chunked.simps) simp
  have 3: "chunked 40 (drop 120 dat) = drop 120 dat # chunked 40 (drop 160 dat)"
    using assms by (subst chunked.simps) simp
  have 4: "chunked 40 (drop 160 dat) = []"
    using assms by (subst chunked.simps) simp
  show ?thesis by (simp only: 1 2 3 4)
qed

lemma specWriteFrames_130:
  assumes "length dat = 130"
  shows "specWriteFrames 1 0 dat =
           [[0x90, 0x3D, 0x00, 0x00, 0x2F] @ [0x01, 0x00, 0x00, 0x00, 0x82, 0x00, 0x00] @ take 40 dat @ [0x00],
            [0x90, 0xAF, 0x00, 0x00, 0x28] @ take 40 (drop 40 dat) @ [0x00],
            [0x90, 0xAF, 0x00, 0x00, 0x28] @ take 40 (drop 80 dat) @ [0x00],
            [0x90, 0xAF, 0x00, 0x00, 0x0A] @ drop 120 dat @ [0x00]]"
  using assms
  by (simp add: specWriteFrames_def chunked_130 afDataFrame_def le3_def toByte_def)


lemma answer_scripted:
  "answer (newCard (scripted answers) km) frames =
     (if 0 < length frames \<and> length frames \<le> length answers
      then answers ! (length frames - 1) else None)"
  by (simp add: answer_def newCard_def scripted_def)

text \<open>
  C6: when the reader accepts every frame, \<open>writeData\<close> sends exactly the frames of
  \<open>specWriteFrames\<close>: a lead frame under opcode \<open>3D\<close> whose payload is the 7-byte
  header and the first chunk, then one ADDITIONAL_FRAME frame per further chunk. The
  chunks have at most 40 bytes each and concatenate to the caller's data. For 130 bytes
  written to file 1 at offset 0 these are the lead frame with the first 40 bytes and
  three ADDITIONAL_FRAME frames with 40, 40 and 10 bytes.
\<close>

theorem writeData_chunking:
  assumes "offset < 2 ^ 24" and "length dat < 2 ^ 24"
      and "\<forall>k<length (specWriteFrames fileNo offset dat).
             accepted (answer st (take (Suc k) (specWriteFrames fileNo offset dat)))"
  shows "writeData fileNo offset dat st = (Inr (), afterFrames st (specWriteFrames fileNo offset dat))
       \<and> concat (take 40 dat # chunked 40 (drop 40 dat)) = dat
       \<and> (\<forall>c\<in>set (take 40 dat # chunked 40 (drop 40 dat)). length c \<le> 40)
       \<and> (length dat = 130 \<and> fileNo = 1 \<and> offset = 0 \<longrightarrow>
            writeData 1 0 dat st =
              (Inr (),
               afterFrames st
                 [[0x90, 0x3D, 0x00, 0x00, 0x2F] @ [0x01, 0x00, 0x00, 0x00, 0x82, 0x00, 0x00]
                    @ take 40 dat @ [0x00],
                  [0x90, 0xAF, 0x00, 0x00, 0x28] @ take 40 (drop 40 dat) @ [0x00],
                  [0x90, 0xAF, 0x00, 0x00, 0x28] @ take 40 (drop 80 dat) @ [0x00],
                  [0x90, 0xAF, 0x00, 0x00, 0x0A] @ drop 120 dat @ [0x00]]))"
proof -
  have run: "writeData fileNo offset dat st = (Inr (), afterFrames st (specWriteFrames fileNo offset dat))"
    using assms by (rule writeData_run)
  have whole: "concat (take 40 dat # chunked 40 (drop 40 dat)) = dat"
    by (simp add: concat_chunked)
  have small: "\<forall>c\<in>set (take 40 dat # chunked 40 (drop 40 dat)). length c \<le> 40"
    by (auto dest: length_chunked)
  have scenario: "writeData 1 0 dat st =
              (Inr (),
               afterFrames st
                 [[0x90, 0x3D, 0x00, 0x00, 0x2F] @ [0x01, 0x00, 0x00, 0x00, 0x82, 0x00, 0x00]
                    @ take 40 dat @ [0x00],
                  [0x90, 0xAF, 0x00, 0x00, 0x28] @ take 40 (drop 40 dat) @ [0x00],
                  [0x90, 0xAF, 0x00, 0x00, 0x28] @ take 40 (drop 80 dat) @ [0x00],
                  [0x90, 0xAF, 0x00, 0x00, 0x0A] @ drop 120 dat @ [0x00]])"
    if "length dat = 130" and "fileNo = 1" and "offset = 0"
    using run that by (simp only: specWriteFrames_130)
  show ?thesis
    using run whole small scenario by blast
qed

theorem writeData_chunking_witness:
  "writeData 1 0 (alloc 130 0x5A)
     (newCard (scripted [Some [0x91, 0xAF], Some [0x91, 0xAF], Some [0x91, 0xAF], Some [0x91, 0x00]]) None)
   = (Inr (),
      afterFrames
        (newCard (scripted [Some [0x91, 0xAF], Some [0x91, 0xAF], Some [0x91, 0xAF], Some [0x91, 0x00]]) None)
        [[0x90, 0x3D, 0x00, 0x00, 0x2F] @ [0x01, 0x00, 0x00, 0x00, 0x82, 0x00, 0x00]
           @ take 40 (alloc 130 0x5A) @ [0x00],
         [0x90, 0xAF, 0x00, 0x00, 0x28] @ take 40 (drop 40 (alloc 130 0x5A)) @ [0x00],
         [0x90, 0xAF, 0x00, 0x00, 0x28] @ take 40 (drop 80 (alloc 130 0x5A)) @ [0x00],
         [0x90, 0xAF, 0x00, 0x00, 0x0A] @ drop 120 (alloc 130 0x5A) @ [0x00]])"
proof -
  let ?dat = "alloc 130 (0x5A :: byte)"
  let ?st = "newCard (scripted [Some [0x91, 0xAF], Some [0x91, 0xAF], Some [0x91, 0xAF],
                                Some [0x91, 0x00]]) None"
  have len: "length ?dat = 130"
    by (simp add: alloc_def)
  have 1: "(0::nat) < 2 ^ 24" by simp
  have 2: "length ?dat < 2 ^ 24" by (simp add: len)
  have n: "length (specWriteFrames 1 0 ?dat) = 4"
    by (subst specWriteFrames_130[OF len]) simp
  have 3: "\<forall>k<length (specWriteFrames 1 0 ?dat).
             accepted (answer ?st (take (Suc k) (specWriteFrames 1 0 ?dat)))"
  proof (intro allI impI)
    fix k assume "k < length (specWriteFrames 1 0 ?dat)"
    then have k: "k < 4" by (simp only: n)
    have lt: "length (take (Suc k) (specWriteFrames 1 0 ?dat)) = Suc k"
      using k n by simp
    have ans: "answer ?st (take (Suc k) (specWriteFrames 1 0 ?dat))
                 = [Some [0x91, 0xAF], Some [0x91, 0xAF], Some [0x91, 0xAF], Some [0x91, 0x00]] ! k"
      using k by (simp only: answer_scripted lt) simp
    from k consider "k = 0" | "k = 1" | "k = 2" | "k = 3"
      by linarith
    then have "accepted ([Some [0x91, 0xAF], Some [0x91, 0xAF], Some [0x91, 0xAF], Some [0x91, 0x00 :: byte]] ! k)"
      by cases (simp_all add: accepted_def isSuccess_def isAdditionalFrame_def)
    then show "accepted (answer ?st (take (Suc k) (specWriteFrames 1 0 ?dat)))"
      by (simp only: ans)
  qed
  from writeData_chunking[OF 1 2 3] len show ?thesis
    by blast
qed

section \<open>What goes over the wire\<close>










section \<open>Legacy authentication and its key argument\<close>






section \<open>ChangeKeyEV2\<close>

lemma length_crc32Buffer: "length (crc32Buffer dat) = 4"
  by (simp add: crc32Buffer_def writeUInt32LE_def)

text \<open>
  C3, evaluated: with an authenticated session that holds a 16-byte session encryption
  key and with a 16-byte new key, \<open>changeKeyEV2\<close> hands the 21 unpadded bytes
  NewKey, version, CRC32 to \<open>aesEncrypt\<close>, whose cipher has auto-padding off; the call
  raises, and nothing is transmitted: the card state, the wire included, is unchanged.
\<close>

theorem changeKeyEV2_raises_unpadded:
  assumes "authenticated st" and "sessionKeyEnc st = Some enc"
      and "length (heap st enc) = 16" and "length newKey = 16"
  shows "length (newKey @ [toByte newKeyVersion]
                 @ crc32Buffer ([0xC6, toByte keyNo] @ newKey @ [toByte newKeyVersion])) = 21
       \<and> changeKeyEV2 lib keyNo newKey newKeyVersion st = Some (Inl BlockLengthError, st)"
  using assms
  by (simp add: changeKeyEV2_def Let_def aesEncrypt_def cipherCall_def zeroIV_def alloc_def
        length_crc32Buffer)

theorem changeKeyEV2_raises_unpadded_witness:
  "changeKeyEV2 identityCrypto 0 (alloc 16 0x22) 1
     ((newCard (scripted [Some [0x91, 0x00]]) None)
        \<lparr> authenticated := True, authenticatedKeyNo := Some 0, sessionKeyEnc := Some 0,
          sessionKeyMac := Some 1, heap := (\<lambda>a. alloc 16 0x33), heapTop := 2 \<rparr>)
   = Some (Inl BlockLengthError,
       (newCard (scripted [Some [0x91, 0x00]]) None)
         \<lparr> authenticated := True, authenticatedKeyNo := Some 0, sessionKeyEnc := Some 0,
           sessionKeyMac := Some 1, heap := (\<lambda>a. alloc 16 0x33), heapTop := 2 \<rparr>)"
proof -
  let ?st = "(newCard (scripted [Some [0x91, 0x00]]) None)
               \<lparr> authenticated := True, authenticatedKeyNo := Some 0, sessionKeyEnc := Some 0,
                 sessionKeyMac := Some 1, heap := (\<lambda>a. alloc 16 0x33), heapTop := 2 \<rparr>"
  have 1: "authenticated ?st" by simp
  have 2: "sessionKeyEnc ?st = Some 0" by simp
  have 3: "length (heap ?st 0) = 16" by (simp add: alloc_def)
  have 4: "length (alloc 16 (0x22 :: byte)) = 16" by (simp add: alloc_def)
  from changeKeyEV2_raises_unpadded[OF 1 2 3 4, of 1 0 identityCrypto] show ?thesis
    by blast
qed

section \<open>Selecting an application\<close>

lemma sameSessionE:
  assumes "sameSession st st'"
  obtains rd p where "st' = st\<lparr>reader := rd, preferNoLe := p\<rparr>"
  using assms unfolding sameSession_def by blast

lemma sameSession_fields:
  assumes "sameSession st st'"
  shows "authenticated st' = authenticated st"
    and "authenticatedKeyNo st' = authenticatedKeyNo st"
    and "sessionKeyEnc st' = sessionKeyEnc st"
    and "sessionKeyMac st' = sessionKeyMac st"
    and "heap st' = heap st"
    and "heapTop st' = heapTop st"
    and "transactionId st' = transactionId st"
    and "commandCounter st' = commandCounter st"
    and "currentApp st' = currentApp st"
    and "keyManager st' = keyManager st"
proof -
  from assms obtain rd p where eq: "st' = st\<lparr>reader := rd, preferNoLe := p\<rparr>"
    by (rule sameSessionE)
  show "authenticated st' = authenticated st"
    and "authenticatedKeyNo st' = authenticatedKeyNo st"
    and "sessionKeyEnc st' = sessionKeyEnc st"
    and "sessionKeyMac st' = sessionKeyMac st"
    and "heap st' = heap st"
    and "heapTop st' = heapTop st"
    and "transactionId st' = transactionId st"
    and "commandCounter st' = commandCounter st"
    and "currentApp st' = currentApp st"
    and "keyManager st' = keyManager st"
    by (simp_all add: eq)
qed

lemma awaitThen_cases:
  assumes "awaitThen m f = Some (r, s')"
  obtains (raised) e where "m = Some (Inl e, s')" and "r = Inl e"
        | (returned) x s1 where "m = Some (Inr x, s1)" and "f x s1 = Some (r, s')"
proof (cases m)
  case None
  with assms show ?thesis by (simp add: awaitThen_def)
next
  case (Some y)
  obtain a s where y: "y = (a, s)" by (cases y)
  show ?thesis
  proof (cases a)
    case (Inl e)
    with assms Some y have "m = Some (Inl e, s')" and "r = Inl e"
      by (simp_all add: awaitThen_def)
    then show ?thesis by (rule raised)
  next
    case (Inr x)
    with assms Some y have "m = Some (Inr x, s)" and "f x s = Some (r, s')"
      by (simp_all add: awaitThen_def)
    then show ?thesis by (rule returned)
  qed
qed

lemma selectApplication_effect:
  assumes "selectApplication aid st = Some (r, st')"
  shows "sameSession st (st'\<lparr>currentApp := currentApp st\<rparr>)
       \<and> currentApp st' = (if r = Inr () then Some aid else currentApp st)"
proof (cases "writeUIntLE aid 3")
  case (Inl e)
  with assms show ?thesis
    by (auto simp: selectApplication_def sameSession_def)
next
  case (Inr aidBuffer)
  with assms have "awaitThen (sendCommand 0x5A (Some aidBuffer) st)
            (\<lambda>response st1. Some (Inr (), st1\<lparr>currentApp := Some aid\<rparr>)) = Some (r, st')"
    by (simp add: selectApplication_def)
  then show ?thesis
  proof (cases rule: awaitThen_cases)
    case (raised e)
    from sendCommand_same[OF raised(1)] obtain rd p where "st' = st\<lparr>reader := rd, preferNoLe := p\<rparr>"
      by (rule sameSessionE)
    with raised(2) show ?thesis
      by (simp add: sameSession_def)
  next
    case (returned x s1)
    from sendCommand_same[OF returned(1)] obtain rd p where s1: "s1 = st\<lparr>reader := rd, preferNoLe := p\<rparr>"
      by (rule sameSessionE)
    from returned(2) have "r = Inr ()" and "st' = s1\<lparr>currentApp := Some aid\<rparr>"
      by simp_all
    with s1 show ?thesis
      by (simp add: sameSession_def)
  qed
qed


section \<open>A successful handshake marks the session authenticated\<close>

lemma authenticateDES_success:
  "authenticateDES lib rndA keyNo key st = (Inr (), st') \<Longrightarrow> authenticated st'"
  by (auto simp: authenticateDES_def Let_def split: prod.splits sum.splits if_splits)

lemma ev2Establish_success:
  "ev2Establish lib authKey rndA rndB keyNo resetCounter st = Some (Inr (), st') \<Longrightarrow> authenticated st'"
  by (auto simp: ev2Establish_def Let_def newBuffer_def split: sum.splits if_splits)

lemma authenticateAES_success:
  "authenticateAES lib rndA keyNo key st = Some (Inr (), st') \<Longrightarrow> authenticated st'"
  by (auto simp: authenticateAES_def Let_def newBuffer_def
           split: sum.splits if_splits elim!: awaitThen_cases)

lemma authenticateEV2First_success:
  "authenticateEV2First lib rndA keyNo key st = Some (Inr (), st') \<Longrightarrow> authenticated st'"
  by (auto simp: authenticateEV2First_def Let_def
           split: sum.splits if_splits elim!: awaitThen_cases)
     (erule ev2Establish_success)

lemma authenticateEV2NonFirst_success:
  "authenticateEV2NonFirst lib rndA keyNo key st = Some (Inr (), st') \<Longrightarrow> authenticated st'"
  by (auto simp: authenticateEV2NonFirst_def Let_def
           split: sum.splits if_splits elim!: awaitThen_cases)
     (erule ev2Establish_success)


section \<open>Select, authenticate, select again\<close>

lemma sendCommand_accepted_first:
  assumes "answer st [commandFrame (preferNoLe st) cmd dat] = Some (d @ [a, b])"
      and "isSuccess a b"
  shows "sendCommand cmd dat st = Some (Inr d, afterFrames st [commandFrame (preferNoLe st) cmd dat])"
proof -
  have acc: "isSuccess a b \<or> isAdditionalFrame a b"
    using assms(2) by simp
  have ex: "tryTransmitAttempts (commandAttempts (preferNoLe st) cmd dat) st =
              (Inr \<lparr>resp_sw1 = a, resp_sw2 = b, resp_data = d\<rparr>,
               afterFrames st [commandFrame (preferNoLe st) cmd dat])"
    by (subst commandAttempts_eq) (rule exchange_accepted_preferred[OF assms(1) acc])
  show ?thesis
    using assms(2) success_not_additionalFrame[OF assms(2)]
    by (simp add: sendCommand_def ex)
qed


lemma selectApplication_accepted:
  assumes "writeUIntLE aid 3 = Inr aidBuffer"
      and "answer st [commandFrame (preferNoLe st) 0x5A (Some aidBuffer)] = Some (d @ [a, b])"
      and "isSuccess a b"
  shows "selectApplication aid st
           = Some (Inr (), (afterFrames st [commandFrame (preferNoLe st) 0x5A (Some aidBuffer)])
                             \<lparr>currentApp := Some aid\<rparr>)"
  using assms(1) sendCommand_accepted_first[OF assms(2,3)]
  by (simp add: selectApplication_def awaitThen_def)

lemma answer_currentApp: "answer (st\<lparr>currentApp := x\<rparr>) frames = answer st frames"
  by (simp add: answer_def)

lemma answer_authenticated:
  "answer (st\<lparr>authenticated := x, authenticatedKeyNo := y\<rparr>) frames = answer st frames"
  by (simp add: answer_def)

lemma scenario_select_first:
  "selectApplication 1 scenarioCard = Some (Inr (), scenarioSelected)"
proof -
  have w: "writeUIntLE 1 3 = Inr [0x01, 0x00, 0x00]"
    by (simp add: writeUIntLE_def upt_rec numeral_3_eq_3 toByte_def)
  have cf: "commandFrame (preferNoLe scenarioCard) 0x5A (Some [0x01, 0x00, 0x00])
              = [0x90, 0x5A, 0x00, 0x00, 0x03, 0x01, 0x00, 0x00]"
    by (simp add: scenarioCard_def newCard_def commandFrame_def commandAttempts_def leAttempts_def
          build_def toByte_def)
  have ans: "answer scenarioCard [commandFrame (preferNoLe scenarioCard) 0x5A (Some [0x01, 0x00, 0x00])]
               = Some ([] @ [0x91, 0x00])"
    by (simp only: cf) (simp add: scenarioCard_def answer_scripted)
  have ok: "isSuccess 0x91 0x00"
    by (simp add: isSuccess_def)
  show ?thesis
    using selectApplication_accepted[OF w ans ok]
    by (simp only: cf scenarioSelected_def)
qed

lemma scenario_authenticate:
  "authenticateDES identityCrypto scenarioRndA 0 None scenarioSelected = (Inr (), scenarioAuthenticated)"
proof -
  let ?f1 = "[0x90, 0x0A, 0x00, 0x00, 0x01, 0x00 :: byte]"
  let ?f2 = "[0x90, 0xAF, 0x00, 0x00, 0x10,
              0xA1, 0xA2, 0xA3, 0xA4, 0xA5, 0xA6, 0xA7, 0xA8,
              0xB2, 0xB3, 0xB4, 0xB5, 0xB6, 0xB7, 0xB8, 0xB1 :: byte]"
  let ?st1 = "afterFrames scenarioSelected [?f1]"
  have p: "preferNoLe scenarioSelected"
    by (simp add: scenarioSelected_def scenarioCard_def afterFrames_def newCard_def)
  have a1: "answer scenarioSelected [?f1]
              = Some ([0xB1, 0xB2, 0xB3, 0xB4, 0xB5, 0xB6, 0xB7, 0xB8] @ [0x91, 0xAF])"
    by (simp add: scenarioSelected_def answer_currentApp answer_afterFrames scenarioCard_def
          answer_scripted)
  have a2: "answer ?st1 [?f2]
              = Some ([0xA2, 0xA3, 0xA4, 0xA5, 0xA6, 0xA7, 0xA8, 0xA1] @ [0x91, 0x00])"
    by (simp add: scenarioSelected_def answer_currentApp answer_afterFrames scenarioCard_def
          answer_scripted)
  have acc1: "isSuccess 0x91 0xAF \<or> isAdditionalFrame 0x91 0xAF"
    and acc2: "isSuccess 0x91 0x00 \<or> isAdditionalFrame 0x91 0x00"
    by (simp_all add: isSuccess_def isAdditionalFrame_def)
  have e1: "tryTransmitAttempts (desAttempts (preferNoLe scenarioSelected) 0x0A [toByte 0]) scenarioSelected
              = (Inr \<lparr>resp_sw1 = 0x91, resp_sw2 = 0xAF,
                       resp_data = [0xB1, 0xB2, 0xB3, 0xB4, 0xB5, 0xB6, 0xB7, 0xB8]\<rparr>, ?st1)"
    using exchange_accepted_preferred[OF a1 acc1, of "[(?f1 @ [0x00], True)]"] p
    by (simp add: desAttempts_def leAttempts_def build_def toByte_def)
  have p1: "preferNoLe ?st1"
    using p by (simp add: preferNoLe_afterFrames)
  have e2: "tryTransmitAttempts (desAttempts (preferNoLe ?st1) 0xAF
                (drop 5 ?f2)) ?st1
              = (Inr \<lparr>resp_sw1 = 0x91, resp_sw2 = 0x00,
                       resp_data = [0xA2, 0xA3, 0xA4, 0xA5, 0xA6, 0xA7, 0xA8, 0xA1]\<rparr>,
                 afterFrames ?st1 [?f2])"
    using exchange_accepted_preferred[OF a2 acc2, of "[(?f2 @ [0x00], True)]"] p1
    by (simp add: desAttempts_def leAttempts_def build_def toByte_def)
  have rot: "rotateLeft [0xB1, 0xB2, 0xB3, 0xB4, 0xB5, 0xB6, 0xB7, 0xB8] 1
               = [0xB2, 0xB3, 0xB4, 0xB5, 0xB6, 0xB7, 0xB8, 0xB1]"
            "rotateLeft scenarioRndA 1 = [0xA2, 0xA3, 0xA4, 0xA5, 0xA6, 0xA7, 0xA8, 0xA1]"
    by (simp_all add: rotateLeft_def scenarioRndA_def upt_rec_numeral)
  show ?thesis
    using e1 e2 rot
    by (simp add: authenticateDES_def Let_def isSuccess_def isAdditionalFrame_def
          des3Decrypt_def des3Encrypt_def cipherCall_def identityCrypto_def alloc_def
          slice_def sliceLast_def scenarioRndA_def scenarioAuthenticated_def afterFrames_append)
qed


lemma scenario_select_second:
  "selectApplication 2 scenarioAuthenticated = Some (Inr (), scenarioReselected)"
proof -
  have w: "writeUIntLE 2 3 = Inr [0x02, 0x00, 0x00]"
    by (simp add: writeUIntLE_def upt_rec numeral_3_eq_3 toByte_def)
  have cf: "commandFrame (preferNoLe scenarioAuthenticated) 0x5A (Some [0x02, 0x00, 0x00])
              = [0x90, 0x5A, 0x00, 0x00, 0x03, 0x02, 0x00, 0x00]"
    by (simp add: scenarioAuthenticated_def scenarioSelected_def scenarioCard_def afterFrames_def
          newCard_def commandFrame_def commandAttempts_def leAttempts_def build_def toByte_def)
  have ans: "answer scenarioAuthenticated
               [commandFrame (preferNoLe scenarioAuthenticated) 0x5A (Some [0x02, 0x00, 0x00])]
               = Some ([] @ [0x91, 0x00])"
    by (simp only: cf)
       (simp add: scenarioAuthenticated_def scenarioSelected_def answer_authenticated
          answer_currentApp answer_afterFrames scenarioCard_def answer_scripted)
  have ok: "isSuccess 0x91 0x00"
    by (simp add: isSuccess_def)
  show ?thesis
    using selectApplication_accepted[OF w ans ok]
    by (simp only: cf scenarioReselected_def)
qed

lemma scenario_still_authenticated: "authenticated scenarioReselected"
  by (simp add: scenarioReselected_def scenarioAuthenticated_def afterFrames_def)

text \<open>
  C1 as stated fails. In the sequence Select(1); Auth with the factory key; Select(2),
  every step succeeds and the session is still marked authenticated at the end.
\<close>

theorem select_after_auth_stays_authenticated:
  "selectApplication 1 scenarioCard = Some (Inr (), scenarioSelected)
   \<and> authenticateDES identityCrypto scenarioRndA 0 None scenarioSelected
       = (Inr (), scenarioAuthenticated)
   \<and> selectApplication 2 scenarioAuthenticated = Some (Inr (), scenarioReselected)
   \<and> authenticated scenarioReselected"
  using scenario_select_first scenario_authenticate scenario_select_second
    scenario_still_authenticated
  by blast

text \<open>
  C1, as the code has it: \<open>selectApplication\<close> never calls \<open>resetAuth\<close>. When it
  completes, by returning or by raising, the authenticated flag, the authenticated key
  number, both session keys and their buffers, the transaction identifier and the command
  counter are what they were before; on success the current application is the selected
  AID, on failure it is unchanged. In particular, a select issued in the state a
  successful authentication left behind leaves the session authenticated.
\<close>

theorem selectApplication_keeps_session:
  assumes "selectApplication aid st = Some (r, st')"
  shows "authenticated st' = authenticated st
       \<and> authenticatedKeyNo st' = authenticatedKeyNo st
       \<and> sessionKeyEnc st' = sessionKeyEnc st
       \<and> sessionKeyMac st' = sessionKeyMac st
       \<and> heap st' = heap st
       \<and> transactionId st' = transactionId st
       \<and> commandCounter st' = commandCounter st
       \<and> currentApp st' = (if r = Inr () then Some aid else currentApp st)
       \<and> (authenticateDES lib rndA keyNo key st0 = (Inr (), st)
            \<or> authenticateAES lib rndA keyNo key st0 = Some (Inr (), st)
            \<or> authenticateEV2First lib rndA keyNo key st0 = Some (Inr (), st)
            \<or> authenticateEV2NonFirst lib rndA keyNo key st0 = Some (Inr (), st)
          \<longrightarrow> authenticated st')"
proof -
  from selectApplication_effect[OF assms]
  have same: "sameSession st (st'\<lparr>currentApp := currentApp st\<rparr>)"
    and app: "currentApp st' = (if r = Inr () then Some aid else currentApp st)"
    by blast+
  have keep: "authenticated st' = authenticated st"
    "authenticatedKeyNo st' = authenticatedKeyNo st"
    "sessionKeyEnc st' = sessionKeyEnc st"
    "sessionKeyMac st' = sessionKeyMac st"
    "heap st' = heap st"
    "transactionId st' = transactionId st"
    "commandCounter st' = commandCounter st"
    using sameSession_fields[OF same] by simp_all
  have after_auth: "authenticated st"
    if "authenticateDES lib rndA keyNo key st0 = (Inr (), st)
        \<or> authenticateAES lib rndA keyNo key st0 = Some (Inr (), st)
        \<or> authenticateEV2First lib rndA keyNo key st0 = Some (Inr (), st)
        \<or> authenticateEV2NonFirst lib rndA keyNo key st0 = Some (Inr (), st)"
    using that
  proof (elim disjE)
    assume "authenticateDES lib rndA keyNo key st0 = (Inr (), st)"
    then show ?thesis by (rule authenticateDES_success)
  next
    assume "authenticateAES lib rndA keyNo key st0 = Some (Inr (), st)"
    then show ?thesis by (rule authenticateAES_success)
  next
    assume "authenticateEV2First lib rndA keyNo key st0 = Some (Inr (), st)"
    then show ?thesis by (rule authenticateEV2First_success)
  next
    assume "authenticateEV2NonFirst lib rndA keyNo key st0 = Some (Inr (), st)"
    then show ?thesis by (rule authenticateEV2NonFirst_success)
  qed
  show ?thesis
    using keep app after_auth by simp
qed

theorem selectApplication_keeps_session_witness:
  "selectApplication 2 scenarioAuthenticated = Some (Inr (), scenarioReselected)
   \<and> authenticateDES identityCrypto scenarioRndA 0 None scenarioSelected
       = (Inr (), scenarioAuthenticated)
   \<and> authenticated scenarioReselected = authenticated scenarioAuthenticated
   \<and> authenticated scenarioReselected
   \<and> currentApp scenarioReselected = Some 2"
proof -
  note t = selectApplication_keeps_session[OF scenario_select_second,
             of identityCrypto scenarioRndA 0 None scenarioSelected]
  from t have same: "authenticated scenarioReselected = authenticated scenarioAuthenticated"
    by blast
  from t scenario_authenticate have auth: "authenticated scenarioReselected"
    by blast
  from t have app: "currentApp scenarioReselected = Some 2"
    by simp
  from scenario_select_second scenario_authenticate same auth app show ?thesis
    by blast
qed


section \<open>Failed handshakes\<close>

lemma aesCMAC_returns: "length key = 16 \<Longrightarrow> \<exists>k. aesCMAC lib key dat len = Inr k"
  by (simp add: aesCMAC_def Let_def split_beta)

lemma ev2Establish_returns:
  assumes "length authKey = 16"
  shows "\<exists>s. ev2Establish lib authKey rndA rndB keyNo resetCounter st = Some (Inr (), s)"
proof -
  obtain k1 where k1: "deriveSessionKeyEV2Enc lib authKey rndA rndB = Inr k1"
    using aesCMAC_returns[OF assms] unfolding deriveSessionKeyEV2Enc_def by blast
  obtain k2 where k2: "deriveSessionKeyEV2Mac lib authKey rndA rndB = Inr k2"
    using aesCMAC_returns[OF assms] unfolding deriveSessionKeyEV2Mac_def by blast
  show ?thesis
    by (simp add: ev2Establish_def k1 k2 Let_def split_beta)
qed

lemma resetAuth_fields:
  "\<not> authenticated (resetAuth st)"
  "sessionKeyEnc (resetAuth st) = None"
  "sessionKeyMac (resetAuth st) = None"
  "transactionId (resetAuth st) = None"
  "heap (resetAuth st) = fillZero (sessionKeyMac st) (fillZero (sessionKeyEnc st) (heap st))"
  by (simp_all add: resetAuth_def)

lemma fillZero_zeroes:
  assumes "enc = Some a \<or> mac = Some a"
  shows "fillZero mac (fillZero enc h) a = alloc (length (h a)) 0x00"
  using assms
  by (cases enc; cases mac) (auto simp: fillZero_def alloc_def)

lemma sameSession_session:
  "sameSession a b \<Longrightarrow>
     authenticated b = authenticated a \<and> sessionKeyEnc b = sessionKeyEnc a
     \<and> sessionKeyMac b = sessionKeyMac a \<and> heap b = heap a"
  using sameSession_fields by blast

lemma authenticateAES_failure:
  assumes "authenticateAES lib rndA keyNo key st = Some (Inl e, st')"
      and "resolveKey key keyNo st = Inr authKey" and "length authKey = 16"
  shows "\<not> authenticated st' \<and> sessionKeyEnc st' = None \<and> sessionKeyMac st' = None
         \<and> heap st' = fillZero (sessionKeyMac st) (fillZero (sessionKeyEnc st) (heap st))"
  using assms
  by (auto simp: authenticateAES_def Let_def split_beta resetAuth_fields
           split: sum.splits if_splits elim!: awaitThen_cases
           dest!: sendCommand_same sameSession_session)

lemma authenticateEV2First_failure:
  assumes "authenticateEV2First lib rndA keyNo key st = Some (Inl e, st')"
      and "resolveKey key keyNo st = Inr authKey" and "length authKey = 16"
  shows "\<not> authenticated st' \<and> sessionKeyEnc st' = None \<and> sessionKeyMac st' = None
         \<and> heap st' = fillZero (sessionKeyMac st) (fillZero (sessionKeyEnc st) (heap st))"
proof -
  have noFail: "ev2Establish lib authKey a b keyNo True s \<noteq> Some (Inl e, st')" for a b s
    using ev2Establish_returns[OF assms(3), of lib a b keyNo True s] by auto
  show ?thesis
    using assms noFail
    by (auto simp: authenticateEV2First_def Let_def resetAuth_fields
             split: sum.splits if_splits elim!: awaitThen_cases
             dest!: sendCommand_same sameSession_session)
qed


lemma sendCommand_rejected_first:
  assumes "answer st [commandFrame (preferNoLe st) cmd dat] = Some (d @ [a, b])"
      and "\<not> isSuccess a b" and "\<not> isAdditionalFrame a b" and "\<not> isLengthError a b"
  shows "sendCommand cmd dat st
           = Some (Inl (CommandFailed a b), afterFrames st [commandFrame (preferNoLe st) cmd dat])"
proof -
  have ex: "tryTransmitAttempts (commandAttempts (preferNoLe st) cmd dat) st =
              (Inr \<lparr>resp_sw1 = a, resp_sw2 = b, resp_data = d\<rparr>,
               afterFrames st [commandFrame (preferNoLe st) cmd dat])"
    using exchange_first[OF assms(1,4), of "\<not> preferNoLe st" "tl (commandAttempts (preferNoLe st) cmd dat)"]
      assms(2,3)
    by (subst commandAttempts_eq) (simp add: afterFrames_pref_same)
  show ?thesis
    using assms(2,3) by (simp add: sendCommand_def ex)
qed

text \<open>
  C2 as stated fails. On the session a successful legacy authentication left behind,
  \<open>authenticateAES\<close> with a 15-byte key raises before its reset: the state, the
  authenticated flag included, is untouched.
\<close>

theorem rejected_key_keeps_session:
  "authenticateDES identityCrypto scenarioRndA 0 None scenarioSelected
     = (Inr (), scenarioAuthenticated)
   \<and> authenticateAES identityCrypto scenarioRndA 0 (Some (alloc 15 0x00)) scenarioAuthenticated
       = Some (Inl AesKeyLength, scenarioAuthenticated)
   \<and> authenticated scenarioAuthenticated"
proof -
  have "authenticateAES identityCrypto scenarioRndA 0 (Some (alloc 15 0x00)) scenarioAuthenticated
          = Some (Inl AesKeyLength, scenarioAuthenticated)"
    by (simp add: authenticateAES_def resolveKey_def alloc_def)
  moreover have "authenticated scenarioAuthenticated"
    by (simp add: scenarioAuthenticated_def)
  ultimately show ?thesis
    using scenario_authenticate by blast
qed

text \<open>
  C2, as the code has it. \<open>authenticateAES\<close> and \<open>authenticateEV2First\<close> call
  \<open>resetAuth\<close> once their key has passed the checks, before the first frame: whenever
  one of them then fails, the session is not authenticated, both session-key fields are
  null, and the buffers that held the previous session keys are filled with zeros. A key
  that cannot be found or is not 16 bytes long makes both raise before that reset, with
  the card state untouched.
\<close>

theorem failed_handshake_clears_session:
  "(resolveKey key keyNo st = Inr authKey \<and> length authKey = 16
      \<and> (authenticateAES lib rndA keyNo key st = Some (Inl e, st')
         \<or> authenticateEV2First lib rndA keyNo key st = Some (Inl e, st'))
    \<longrightarrow> \<not> authenticated st' \<and> sessionKeyEnc st' = None \<and> sessionKeyMac st' = None
        \<and> (\<forall>a. sessionKeyEnc st = Some a \<or> sessionKeyMac st = Some a
               \<longrightarrow> heap st' a = alloc (length (heap st a)) 0x00))
   \<and> ((\<forall>k. resolveKey key keyNo st = Inr k \<longrightarrow> length k \<noteq> 16)
    \<longrightarrow> (\<exists>e1. authenticateAES lib rndA keyNo key st = Some (Inl e1, st))
        \<and> (\<exists>e2. authenticateEV2First lib rndA keyNo key st = Some (Inl e2, st)))"
proof (intro conjI impI)
  assume a: "resolveKey key keyNo st = Inr authKey \<and> length authKey = 16
      \<and> (authenticateAES lib rndA keyNo key st = Some (Inl e, st')
         \<or> authenticateEV2First lib rndA keyNo key st = Some (Inl e, st'))"
  then have rk: "resolveKey key keyNo st = Inr authKey" and len: "length authKey = 16"
    and fail: "authenticateAES lib rndA keyNo key st = Some (Inl e, st')
               \<or> authenticateEV2First lib rndA keyNo key st = Some (Inl e, st')"
    by blast+
  have cleared: "\<not> authenticated st' \<and> sessionKeyEnc st' = None \<and> sessionKeyMac st' = None
         \<and> heap st' = fillZero (sessionKeyMac st) (fillZero (sessionKeyEnc st) (heap st))"
    using fail
  proof
    assume "authenticateAES lib rndA keyNo key st = Some (Inl e, st')"
    then show ?thesis using rk len by (rule authenticateAES_failure)
  next
    assume "authenticateEV2First lib rndA keyNo key st = Some (Inl e, st')"
    then show ?thesis using rk len by (rule authenticateEV2First_failure)
  qed
  then show "\<not> authenticated st'" and "sessionKeyEnc st' = None" and "sessionKeyMac st' = None"
    by blast+
  show "\<forall>a. sessionKeyEnc st = Some a \<or> sessionKeyMac st = Some a
               \<longrightarrow> heap st' a = alloc (length (heap st a)) 0x00"
    using cleared by (simp add: fillZero_zeroes)
next
  assume b: "\<forall>k. resolveKey key keyNo st = Inr k \<longrightarrow> length k \<noteq> 16"
  show "\<exists>e1. authenticateAES lib rndA keyNo key st = Some (Inl e1, st)"
    using b by (cases "resolveKey key keyNo st") (simp_all add: authenticateAES_def)
  show "\<exists>e2. authenticateEV2First lib rndA keyNo key st = Some (Inl e2, st)"
    using b by (cases "resolveKey key keyNo st") (simp_all add: authenticateEV2First_def)
qed

theorem failed_handshake_clears_session_witness:
  "authenticateAES identityCrypto scenarioRndA 0 (Some (alloc 16 0x00)) keyedSession
     = Some (Inl (CommandFailed 0x91 0xAE),
             afterFrames (resetAuth keyedSession) [[0x90, 0xAA, 0x00, 0x00, 0x01, 0x00]])
   \<and> sessionKeyEnc keyedSession = Some 0
   \<and> heap keyedSession 0 = alloc 16 0x33
   \<and> \<not> authenticated (afterFrames (resetAuth keyedSession) [[0x90, 0xAA, 0x00, 0x00, 0x01, 0x00]])
   \<and> heap (afterFrames (resetAuth keyedSession) [[0x90, 0xAA, 0x00, 0x00, 0x01, 0x00]]) 0
       = alloc 16 0x00
   \<and> (\<exists>e1. authenticateAES identityCrypto scenarioRndA 0 (Some (alloc 15 0x00)) keyedSession
              = Some (Inl e1, keyedSession))"
proof -
  let ?st' = "afterFrames (resetAuth keyedSession) [[0x90, 0xAA, 0x00, 0x00, 0x01, 0x00]]"
  have rk: "resolveKey (Some (alloc 16 0x00)) 0 keyedSession = Inr (alloc 16 0x00)"
    by (simp add: resolveKey_def)
  have len: "length (alloc 16 (0x00 :: byte)) = 16"
    by (simp add: alloc_def)
  have p: "preferNoLe (resetAuth keyedSession)"
    by (simp add: resetAuth_def keyedSession_def newCard_def)
  have cf: "commandFrame True 0xAA (Some [toByte 0]) = [0x90, 0xAA, 0x00, 0x00, 0x01, 0x00]"
    by (simp add: commandFrame_def commandAttempts_def leAttempts_def build_def toByte_def)
  have ans: "answer (resetAuth keyedSession) [commandFrame (preferNoLe (resetAuth keyedSession)) 0xAA (Some [toByte 0])]
               = Some ([] @ [0x91, 0xAE])"
    by (simp only: p cf)
       (simp add: answer_def resetAuth_def keyedSession_def newCard_def scripted_def)
  have send: "sendCommand 0xAA (Some [toByte 0]) (resetAuth keyedSession)
                = Some (Inl (CommandFailed 0x91 0xAE), ?st')"
    using sendCommand_rejected_first[OF ans] p
    by (simp add: cf isSuccess_def isAdditionalFrame_def isLengthError_def)
  have fail: "authenticateAES identityCrypto scenarioRndA 0 (Some (alloc 16 0x00)) keyedSession
                = Some (Inl (CommandFailed 0x91 0xAE), ?st')"
    using len by (simp add: authenticateAES_def rk send awaitThen_def)
  have enc: "sessionKeyEnc keyedSession = Some 0"
    and h: "heap keyedSession 0 = alloc 16 0x33"
    by (simp_all add: keyedSession_def)
  have bad: "\<forall>k. resolveKey (Some (alloc 15 0x00)) 0 keyedSession = Inr k \<longrightarrow> length k \<noteq> 16"
    by (simp add: resolveKey_def alloc_def)
  note t1 = failed_handshake_clears_session[of "Some (alloc 16 0x00)" 0 keyedSession "alloc 16 0x00"
              identityCrypto scenarioRndA "CommandFailed 0x91 0xAE" ?st']
  note t2 = failed_handshake_clears_session[of "Some (alloc 15 0x00)" 0 keyedSession "alloc 16 0x00"
              identityCrypto scenarioRndA "CommandFailed 0x91 0xAE" ?st']
  from t1 rk len fail have c: "\<not> authenticated ?st'"
    and z: "\<forall>a. sessionKeyEnc keyedSession = Some a \<or> sessionKeyMac keyedSession = Some a
               \<longrightarrow> heap ?st' a = alloc (length (heap keyedSession a)) 0x00"
    by blast+
  from z enc h have z0: "heap ?st' 0 = alloc 16 0x00"
    by (simp add: alloc_def)
  from t2 bad have k: "\<exists>e1. authenticateAES identityCrypto scenarioRndA 0 (Some (alloc 15 0x00)) keyedSession
              = Some (Inl e1, keyedSession)"
    by blast
  from fail enc h c z0 k show ?thesis
    by blast
qed

end
